theory Spec2Isabelle
  imports Main "HOL-Library.Sublist"
begin

section \<open>Messages, errors and the session state\<close>

text \<open>
  The command interpreter of \<^verbatim>\<open>gptme/commands.py\<close>: \<^verbatim>\<open>execute_cmd\<close> and
  \<^verbatim>\<open>handle_cmd\<close>. Python strings are modelled as \<^typ>\<open>string\<close>, one \<^typ>\<open>char\<close> per
  code point; only the code points below 256 are representable.
\<close>

datatype role = User | Assistant | System

text \<open>
  Modelled from the spec: the class \<^verbatim>\<open>Message\<close> of \<^verbatim>\<open>gptme/message.py\<close> is not part of
  the sources at hand. The spec gives it as \<^verbatim>\<open>{role, content, hidden}\<close>; the source reads
  the fields \<^verbatim>\<open>role\<close>, \<^verbatim>\<open>content\<close> and \<^verbatim>\<open>hide\<close>, and builds messages with
  \<^verbatim>\<open>Message(role, content)\<close>, which leaves the hidden flag off.
\<close>

record message =
  role :: role
  content :: string
  hide :: bool

definition Message :: "role \<Rightarrow> string \<Rightarrow> message" where
  "Message r c = \<lparr>role = r, content = c, hide = False\<rparr>"

text \<open>The exceptions that can leave \<^verbatim>\<open>handle_cmd\<close> and \<^verbatim>\<open>execute_cmd\<close>.\<close>

datatype error =
    AssertionError
  | SystemExit int
  | EOFError
  | FileNotFoundError string
  | ValueError string
  | IndexError

text \<open>
  What the handlers do to the outside world, in program order: text printed, prompts
  shown by \<^verbatim>\<open>input\<close>, and the calls made on the log manager.
\<close>

datatype event =
    Print string
  | PrintMsg message
  | Input string
  | LogUndo nat bool
  | LogPrint bool
  | LogRename string
  | LogFork string
  | LogWrite

text \<open>
  The state the handlers work on: \<^verbatim>\<open>log.log\<close> (the transcript), what \<^verbatim>\<open>log.write()\<close>
  persisted last, the regular files of the file system by path, the lines still to be
  read from standard input, and the events so far.
\<close>

record state =
  log :: "message list"
  stored :: "message list"
  files :: "string \<rightharpoonup> string"
  stdin :: "string list"
  events :: "event list"

section \<open>The collaborators\<close>

text \<open>
  The functions imported from other modules are parameters of the model. The editor is
  asked once per round of the edit loop and may answer differently each time, so it
  takes the number of the round; \<open>sleep_interrupted k\<close> tells whether
  \<^verbatim>\<open>KeyboardInterrupt\<close> is raised during the \<^verbatim>\<open>sleep(1)\<close> of round \<open>k\<close>.
  \<^verbatim>\<open>toml_to_msgs\<close> raises an exception (\<open>Inl\<close>, with its text) or returns the messages.
  \<^verbatim>\<open>get_last_code_block\<close> returns \<^verbatim>\<open>None\<close> or the code.
\<close>

record env =
  execute_shell :: "string \<Rightarrow> bool \<Rightarrow> message list"
  execute_python :: "string \<Rightarrow> bool \<Rightarrow> message list"
  execute_msg :: "message \<Rightarrow> bool \<Rightarrow> message list"
  gen_context_msg :: message
  summarize :: "message list \<Rightarrow> string"
  prepare_messages :: "message list \<Rightarrow> message list"
  msgs_to_toml :: "message list \<Rightarrow> string"
  toml_to_msgs :: "string \<Rightarrow> string + message list"
  edit_text_with_editor :: "nat \<Rightarrow> string \<Rightarrow> string"
  sleep_interrupted :: "nat \<Rightarrow> bool"
  get_last_code_block :: "message list \<Rightarrow> string option"

text \<open>
  Modelled from the spec: \<^verbatim>\<open>constants.CMDFIX\<close> is not part of the sources at hand. The
  spec calls it a single reserved character and writes every directive with a slash;
  \<^verbatim>\<open>execute_cmd\<close> tests for the slash literally.
\<close>

definition CMDFIX :: string where
  "CMDFIX = ''/''"

text \<open>
  Modelled from the spec: the class \<^verbatim>\<open>LogManager\<close> is not part of the sources at hand. The
  spec gives the transcript as an ordered sequence with \<^verbatim>\<open>undo(n)\<close> removing the last
  \<open>n\<close> messages, optionally silently, with append, and with an explicit persist
  operation. The spec leaves open what \<^verbatim>\<open>undo\<close> does when asked for more messages than
  there are; here it stops at the empty transcript.
\<close>

definition log_undo :: "nat \<Rightarrow> bool \<Rightarrow> state \<Rightarrow> state" where
  "log_undo n quiet st =
     st\<lparr>log := take (length (log st) - n) (log st),
        events := events st @ [LogUndo n quiet]\<rparr>"

definition log_append :: "message \<Rightarrow> state \<Rightarrow> state" where
  "log_append m st = st\<lparr>log := log st @ [m]\<rparr>"

definition log_write :: "state \<Rightarrow> state" where
  "log_write st = st\<lparr>stored := log st, events := events st @ [LogWrite]\<rparr>"

definition log_print :: "bool \<Rightarrow> state \<Rightarrow> state" where
  "log_print show_hidden st = st\<lparr>events := events st @ [LogPrint show_hidden]\<rparr>"

definition log_rename :: "string \<Rightarrow> state \<Rightarrow> state" where
  "log_rename new_name st = st\<lparr>events := events st @ [LogRename new_name]\<rparr>"

definition log_fork :: "string \<Rightarrow> state \<Rightarrow> state" where
  "log_fork new_name st = st\<lparr>events := events st @ [LogFork new_name]\<rparr>"

section \<open>Built-ins\<close>

definition print :: "string \<Rightarrow> state \<Rightarrow> state" where
  "print s st = st\<lparr>events := events st @ [Print s]\<rparr>"

definition print_msg :: "message \<Rightarrow> state \<Rightarrow> state" where
  "print_msg m st = st\<lparr>events := events st @ [PrintMsg m]\<rparr>"

text \<open>\<^verbatim>\<open>input(prompt)\<close> reads one line and raises \<^verbatim>\<open>EOFError\<close> at the end of input.\<close>

definition input :: "string \<Rightarrow> state \<Rightarrow> (error + string) \<times> state" where
  "input prompt st =
     (let st1 = st\<lparr>events := events st @ [Input prompt]\<rparr>
      in case stdin st of
           [] \<Rightarrow> (Inl EOFError, st1)
         | l # ls \<Rightarrow> (Inr l, st1\<lparr>stdin := ls\<rparr>))"

text \<open>\<^verbatim>\<open>s.lstrip(chars)\<close> drops every leading character that occurs in \<open>chars\<close>.\<close>

definition lstrip :: "string \<Rightarrow> string \<Rightarrow> string" where
  "lstrip chars s = dropWhile (\<lambda>c. c \<in> set chars) s"

text \<open>\<^verbatim>\<open>s.split(" ")\<close>: every single separator ends a field; the result is never empty.\<close>

fun split :: "char \<Rightarrow> string \<Rightarrow> string list" where
  "split sep [] = [[]]"
| "split sep (c # cs) =
     (if c = sep then [] # split sep cs
      else (case split sep cs of
              [] \<Rightarrow> [[c]]
            | w # ws \<Rightarrow> (c # w) # ws))"

fun join :: "string \<Rightarrow> string list \<Rightarrow> string" where
  "join sep [] = []"
| "join sep [x] = x"
| "join sep (x # y # ys) = x @ sep @ join sep (y # ys)"

text \<open>
  \<^verbatim>\<open>str.isdigit\<close> holds of a non-empty string whose characters all are digits. Below
  code point 256 these are the ten decimal digits and the superscripts two, three and
  one (U+00B2, U+00B3, U+00B9).
\<close>

definition isdigit_char :: "char \<Rightarrow> bool" where
  "isdigit_char c \<longleftrightarrow> c \<in> set ''0123456789'' \<or> c \<in> {CHR 0xB2, CHR 0xB3, CHR 0xB9}"

definition isdigit :: "string \<Rightarrow> bool" where
  "isdigit s \<longleftrightarrow> s \<noteq> [] \<and> list_all isdigit_char s"

text \<open>
  \<^verbatim>\<open>int(s)\<close>, for the strings that pass \<^verbatim>\<open>isdigit\<close> (the only ones the source passes):
  the decimal value when every character is a decimal digit, \<^verbatim>\<open>ValueError\<close>
  (\<open>None\<close>) otherwise. The bound that newer interpreters put on the number of digits
  \<^verbatim>\<open>int\<close> reads is not modelled.
\<close>

definition int_str :: "string \<Rightarrow> nat option" where
  "int_str s =
     (if s \<noteq> [] \<and> list_all (\<lambda>c. c \<in> set ''0123456789'') s
      then Some (foldl (\<lambda>a c. 10 * a + (of_char c - 48)) 0 s)
      else None)"

text \<open>
  \<^verbatim>\<open>str.lower\<close> below code point 256: the letters A to Z and the capital letters of
  the Latin-1 block (U+00C0 to U+00DE without the multiplication sign) move up by 32.
\<close>

definition lower_char :: "char \<Rightarrow> char" where
  "lower_char c =
     (let n = (of_char c :: nat)
      in if (65 \<le> n \<and> n \<le> 90) \<or> (192 \<le> n \<and> n \<le> 222 \<and> n \<noteq> 215)
         then char_of (n + 32) else c)"

definition lower :: "string \<Rightarrow> string" where
  "lower s = map lower_char s"

section \<open>The command table\<close>

definition action_descriptions :: "(string \<times> string) list" where
  "action_descriptions =
     [(''continue'', ''Continue response''),
      (''undo'', ''Undo the last action''),
      (''log'', ''Show the conversation log''),
      (''edit'', ''Edit previous messages''),
      (''rename'', ''Rename the conversation''),
      (''fork'', ''Create a copy of the conversation with a new name''),
      (''summarize'', ''Summarize the conversation so far''),
      (''load'', ''Load a file''),
      (''save'', ''Save the most recent code block to a file''),
      (''shell'', ''Execute a shell command''),
      (''python'', ''Execute a Python command''),
      (''replay'',
       ''Re-execute past commands in the conversation (does not store output in log)''),
      (''impersonate'', ''Impersonate the assistant''),
      (''help'', ''Show this help message''),
      (''exit'', ''Exit the program'')]"

definition COMMANDS :: "string list" where
  "COMMANDS = map fst action_descriptions"

section \<open>The handlers\<close>

text \<open>
  A handler ends by raising (\<open>Inl\<close>) or by returning after having yielded a list of
  messages (\<open>Inr\<close>); either way the state it leaves behind is part of the outcome. No
  handler touches the state after its first \<^verbatim>\<open>yield\<close> and none raises after one, so the
  messages can be collected.
\<close>

type_synonym outcome = "(error + message list) \<times> state"

text \<open>The first two lines of \<^verbatim>\<open>handle_cmd\<close>: strip the marker, split at single spaces.\<close>

definition parse_cmd :: "string \<Rightarrow> string \<times> string list" where
  "parse_cmd cmd =
     (case split (CHR '' '') (lstrip CMDFIX cmd) of
        [] \<Rightarrow> ([], [])
      | name # args \<Rightarrow> (name, args))"

text \<open>The idiom \<^verbatim>\<open>args[0] if args else input(prompt)\<close>.\<close>

definition arg0_or_input :: "string list \<Rightarrow> string \<Rightarrow> state \<Rightarrow> (error + string) \<times> state" where
  "arg0_or_input args prompt st =
     (case args of
        a # _ \<Rightarrow> (Inr a, st)
      | [] \<Rightarrow> input prompt st)"

definition case_shell :: "env \<Rightarrow> string list \<Rightarrow> bool \<Rightarrow> state \<Rightarrow> outcome" where
  "case_shell E args no_confirm st =
     (Inr (execute_shell E (join '' '' args) (\<not> no_confirm)), st)"

definition case_python :: "env \<Rightarrow> string list \<Rightarrow> bool \<Rightarrow> state \<Rightarrow> outcome" where
  "case_python E args no_confirm st =
     (Inr (execute_python E (join '' '' args) (\<not> no_confirm)), st)"

definition case_continue :: "state \<Rightarrow> outcome" where
  "case_continue st = (Inr [], log_undo 1 True st)"

definition case_log :: "string list \<Rightarrow> state \<Rightarrow> outcome" where
  "case_log args st = (Inr [], log_print (''--hidden'' \<in> set args) (log_undo 1 True st))"

definition case_rename :: "string list \<Rightarrow> state \<Rightarrow> outcome" where
  "case_rename args st =
     (case arg0_or_input args ''New name: '' (log_undo 1 True st) of
        (Inl e, st1) \<Rightarrow> (Inl e, st1)
      | (Inr new_name, st1) \<Rightarrow>
          (Inr [], print (''Renamed conversation to '' @ new_name) (log_rename new_name st1)))"

definition case_fork :: "string list \<Rightarrow> state \<Rightarrow> outcome" where
  "case_fork args st =
     (case arg0_or_input args ''New name: '' st of
        (Inl e, st1) \<Rightarrow> (Inl e, st1)
      | (Inr new_name, st1) \<Rightarrow> (Inr [], log_fork new_name st1))"

definition case_summarize :: "env \<Rightarrow> state \<Rightarrow> outcome" where
  "case_summarize E st =
     (let msgs = prepare_messages E (log st);
          msgs = filter (\<lambda>m. \<not> hide m) msgs;
          summary = summarize E msgs
      in (Inr [], print (''Summary: '' @ summary) st))"

text \<open>
  The loop \<^verbatim>\<open>while not res\<close> of the edit case. It has no bound of its own, so the model
  counts rounds down from \<open>fuel\<close> and answers \<open>None\<close> when they are used up; \<open>k\<close> is
  the number of the round. An empty list of messages is as false as \<^verbatim>\<open>None\<close> for the
  loop test, so a document that parses to no message at all opens the editor again.
\<close>

fun edit_loop :: "env \<Rightarrow> nat \<Rightarrow> nat \<Rightarrow> string \<Rightarrow> state \<Rightarrow> outcome option" where
  "edit_loop E 0 k t st = None"
| "edit_loop E (Suc fuel) k t st =
     (let t = edit_text_with_editor E k t
      in case toml_to_msgs E t of
           Inr res \<Rightarrow>
             if res = [] then edit_loop E fuel (Suc k) t st
             else Some (Inr [],
                    print ''Applied edited messages, write /log to see the result''
                      (log_write (st\<lparr>log := rev res\<rparr>)))
         | Inl e \<Rightarrow>
             (let st1 = print (CHR 0x0A # ''Failed to parse TOML: '' @ e) st
              in if sleep_interrupted E k then Some (Inr [Message System ''Interrupted''], st1)
                 else edit_loop E fuel (Suc k) t st1))"

definition case_edit :: "env \<Rightarrow> nat \<Rightarrow> state \<Rightarrow> outcome option" where
  "case_edit E fuel st =
     (let st1 = log_undo 1 True st;
          t = msgs_to_toml E (rev (log st1))
      in edit_loop E fuel 0 t st1)"

definition case_context :: "env \<Rightarrow> state \<Rightarrow> outcome" where
  "case_context E st = (Inr [gen_context_msg E], st)"

definition case_undo :: "string list \<Rightarrow> state \<Rightarrow> outcome" where
  "case_undo args st =
     (let st1 = log_undo 1 True st
      in if args \<noteq> [] \<and> isdigit (hd args)
         then (case int_str (hd args) of
                 None \<Rightarrow> (Inl (ValueError (hd args)), st1)
               | Some n \<Rightarrow> (Inr [], log_undo n False st1))
         else (Inr [], log_undo 1 False st1))"

definition case_load :: "string list \<Rightarrow> state \<Rightarrow> outcome" where
  "case_load args st =
     (case arg0_or_input args ''Filename: '' st of
        (Inl e, st1) \<Rightarrow> (Inl e, st1)
      | (Inr filename, st1) \<Rightarrow>
          (case files st1 filename of
             None \<Rightarrow> (Inl (FileNotFoundError filename), st1)
           | Some contents \<Rightarrow>
               (Inr [Message System
                       (''# filename: '' @ filename @ [CHR 0x0A, CHR 0x0A] @ contents)],
                st1)))"

text \<open>
  In the save case \<^verbatim>\<open>not code\<close> holds of \<^verbatim>\<open>None\<close> and of the empty string. Opening a
  file for writing always succeeds in this model.
\<close>

definition case_save :: "env \<Rightarrow> string list \<Rightarrow> state \<Rightarrow> outcome" where
  "case_save E args st =
     (let st1 = log_undo 1 True st
      in case get_last_code_block E (log st1) of
           None \<Rightarrow> (Inr [], print ''No code block found'' st1)
         | Some code \<Rightarrow>
             if code = [] then (Inr [], print ''No code block found'' st1)
             else
               (case arg0_or_input args ''Filename: '' st1 of
                  (Inl e, st2) \<Rightarrow> (Inl e, st2)
                | (Inr filename, st2) \<Rightarrow>
                    (let write_file = (\<lambda>s.
                           (Inr [], print (''Saved code block to '' @ filename)
                                      (s\<lparr>files := (files s)(filename \<mapsto> code)\<rparr>)))
                     in if files st2 filename \<noteq> None
                        then (case input ''File already exists, overwrite? [y/N] '' st2 of
                                (Inl e, st3) \<Rightarrow> (Inl e, st3)
                              | (Inr ans, st3) \<Rightarrow>
                                  if lower ans \<noteq> ''y'' then (Inr [], st3)
                                  else write_file st3)
                        else write_file st2)))"

definition case_exit :: "state \<Rightarrow> outcome" where
  "case_exit st = (Inl (SystemExit 0), st)"

fun replay_msgs :: "env \<Rightarrow> message list \<Rightarrow> state \<Rightarrow> state" where
  "replay_msgs E [] st = st"
| "replay_msgs E (msg # msgs) st =
     replay_msgs E msgs
       (if role msg = Assistant then fold print_msg (execute_msg E msg True) st else st)"

definition case_replay :: "env \<Rightarrow> state \<Rightarrow> outcome" where
  "case_replay E st =
     (let st1 = print ''Replaying conversation...'' (log_undo 1 True st)
      in (Inr [], replay_msgs E (log st1) st1))"

definition case_impersonate :: "env \<Rightarrow> string list \<Rightarrow> bool \<Rightarrow> state \<Rightarrow> outcome" where
  "case_impersonate E args no_confirm st =
     (case (if args \<noteq> [] then (Inr (join '' '' args), st)
            else input ''[impersonate] Assistant: '' st) of
        (Inl e, st1) \<Rightarrow> (Inl e, st1)
      | (Inr c, st1) \<Rightarrow>
          (let msg = Message Assistant c
           in (Inr (msg # execute_msg E msg (\<not> no_confirm)), st1)))"

text \<open>The default case; \<^verbatim>\<open>log.log[-1]\<close> raises \<^verbatim>\<open>IndexError\<close> on an empty transcript.\<close>

definition case_default :: "state \<Rightarrow> outcome" where
  "case_default st =
     (if log st = [] then (Inl IndexError, st)
      else
        (let st1 = (if content (last (log st)) \<noteq> CMDFIX @ ''help''
                    then print ''Unknown command'' st else st);
             st2 = log_write (log_undo 1 True st1);
             st3 = print ''Available commands:'' st2
         in (Inr [],
             fold (\<lambda>(cmd, desc). print (''  '' @ cmd @ '': '' @ desc)) action_descriptions st3)))"

section \<open>Dispatch\<close>

definition handle_cmd :: "env \<Rightarrow> nat \<Rightarrow> string \<Rightarrow> bool \<Rightarrow> state \<Rightarrow> outcome option" where
  "handle_cmd E fuel cmd no_confirm st =
     (case parse_cmd cmd of (name, args) \<Rightarrow>
        if name \<in> {''bash'', ''sh'', ''shell''} then Some (case_shell E args no_confirm st)
        else if name \<in> {''python'', ''py''} then Some (case_python E args no_confirm st)
        else if name = ''continue'' then Some (case_continue st)
        else if name = ''log'' then Some (case_log args st)
        else if name = ''rename'' then Some (case_rename args st)
        else if name = ''fork'' then Some (case_fork args st)
        else if name = ''summarize'' then Some (case_summarize E st)
        else if name = ''edit'' then case_edit E fuel st
        else if name = ''context'' then Some (case_context E st)
        else if name = ''undo'' then Some (case_undo args st)
        else if name = ''load'' then Some (case_load args st)
        else if name = ''save'' then Some (case_save E args st)
        else if name = ''exit'' then Some (case_exit st)
        else if name = ''replay'' then Some (case_replay E st)
        else if name = ''impersonate'' then Some (case_impersonate E args no_confirm st)
        else Some (case_default st))"

text \<open>
  \<^verbatim>\<open>execute_cmd\<close>: the assertion on the role, the test for the slash at position 0, and
  the loop that appends what the handler yields.
\<close>

definition execute_cmd :: "env \<Rightarrow> nat \<Rightarrow> message \<Rightarrow> state \<Rightarrow> ((error + bool) \<times> state) option" where
  "execute_cmd E fuel msg st =
     (if role msg \<noteq> User then Some (Inl AssertionError, st)
      else if take 1 (content msg) \<in> set [''/'']
      then (case handle_cmd E fuel (content msg) True st of
              None \<Rightarrow> None
            | Some (Inl e, st1) \<Rightarrow> Some (Inl e, st1)
            | Some (Inr resps, st1) \<Rightarrow> Some (Inr True, fold log_append resps st1))
      else Some (Inr False, st))"

section \<open>The loop variable of the edit case\<close>

text \<open>
  \<open>edit_doc E k t n\<close> is the value of the variable \<^verbatim>\<open>t\<close> after \<open>n\<close> further rounds of
  the edit loop, when round \<open>k\<close> starts with \<open>t\<close>: each round replaces it by what the
  editor returns. \<open>round_retries E k t\<close> holds when round \<open>k\<close>, started with \<open>t\<close>,
  ends neither the loop nor the handler: the document parses to no message, or it fails
  to parse and the pause is not interrupted.
\<close>

fun edit_doc :: "env \<Rightarrow> nat \<Rightarrow> string \<Rightarrow> nat \<Rightarrow> string" where
  "edit_doc E k t 0 = t"
| "edit_doc E k t (Suc n) = edit_doc E (Suc k) (edit_text_with_editor E k t) n"

definition round_retries :: "env \<Rightarrow> nat \<Rightarrow> string \<Rightarrow> bool" where
  "round_retries E k t =
     (case toml_to_msgs E (edit_text_with_editor E k t) of
        Inr res \<Rightarrow> res = []
      | Inl e \<Rightarrow> \<not> sleep_interrupted E k)"

section \<open>A concrete session\<close>

text \<open>
  Collaborators and states to run the handlers on. The editor returns a document that
  does not parse in the rounds before \<open>good\<close> and one that parses to a single message
  from then on; the pause of round \<open>k\<close> is interrupted when \<open>intr k\<close> holds.
\<close>

definition demo_env :: "nat \<Rightarrow> (nat \<Rightarrow> bool) \<Rightarrow> env" where
  "demo_env good intr =
     \<lparr>execute_shell = (\<lambda>c ask. [Message System c]),
      execute_python = (\<lambda>c ask. [Message System c]),
      execute_msg = (\<lambda>m ask. [Message System (content m)]),
      gen_context_msg = Message System ''context'',
      summarize = (\<lambda>ms. ''summary''),
      prepare_messages = (\<lambda>ms. ms),
      msgs_to_toml = (\<lambda>ms. concat (map content ms)),
      toml_to_msgs = (\<lambda>t. if t = ''ok'' then Inr [Message User ''hello''] else Inl ''bad''),
      edit_text_with_editor = (\<lambda>k t. if k < good then ''??'' else ''ok''),
      sleep_interrupted = intr,
      get_last_code_block = (\<lambda>ms. Some ''code'')\<rparr>"

definition demo_state :: "message list \<Rightarrow> string list \<Rightarrow> state" where
  "demo_state msgs lines =
     \<lparr>log = msgs, stored = [], files = [''out.py'' \<mapsto> ''old''], stdin = lines, events = []\<rparr>"

section \<open>Auxiliary facts\<close>

lemmas op_defs = print_def print_msg_def log_print_def log_rename_def log_fork_def
  log_write_def log_undo_def log_append_def

lemma fold_print_msg: "fold print_msg ms st = st\<lparr>events := events st @ map PrintMsg ms\<rparr>"
  by (induction ms arbitrary: st) (simp_all add: print_msg_def)

lemma replay_msgs_eq:
  "replay_msgs E ms st =
     st\<lparr>events := events st @
        map PrintMsg (concat (map (\<lambda>m. execute_msg E m True)
          (filter (\<lambda>m. role m = Assistant) ms)))\<rparr>"
  by (induction ms arbitrary: st) (simp_all add: fold_print_msg)

lemma fold_print_descriptions:
  "fold (\<lambda>(cmd, desc). print (f cmd desc)) xs st =
     st\<lparr>events := events st @ map (\<lambda>(cmd, desc). Print (f cmd desc)) xs\<rparr>"
  by (induction xs arbitrary: st) (auto simp: print_def)

lemma lstrip_markers: "lstrip CMDFIX (replicate n (CHR ''/'') @ cmd) = lstrip CMDFIX cmd"
  by (induction n) (simp_all add: lstrip_def CMDFIX_def)

lemma arg0_or_input_frame:
  "arg0_or_input args p st = (r, st1) \<Longrightarrow>
     log st1 = log st \<and> stored st1 = stored st \<and> files st1 = files st \<and>
     (events st1 = events st \<or> events st1 = events st @ [Input p])"
  by (auto simp: arg0_or_input_def input_def Let_def split: list.splits)

section \<open>Stripping the marker\<close>

text \<open>
  Claim C10. \<^verbatim>\<open>handle_cmd\<close> strips every leading slash of the raw command, not only one:
  putting any number of slashes in front of a command text changes neither the name and
  the arguments it is parsed into nor what the handler does. So \<^verbatim>\<open>/shell x\<close> and
  \<^verbatim>\<open>//shell x\<close> reach the same handler with the same name and arguments.
\<close>

theorem handle_cmd_strips_every_marker:
  "parse_cmd (replicate n (CHR ''/'') @ cmd) = parse_cmd cmd \<and>
   handle_cmd E fuel (replicate n (CHR ''/'') @ cmd) no_confirm st =
     handle_cmd E fuel cmd no_confirm st"
  by (simp add: parse_cmd_def handle_cmd_def lstrip_markers)

theorem handle_cmd_strips_every_marker_witness:
  "parse_cmd ''//shell x'' = (''shell'', [''x'']) \<and>
   parse_cmd ''/shell x'' = (''shell'', [''x'']) \<and>
   handle_cmd (demo_env 1 (\<lambda>k. False)) 0 ''//shell x'' True (demo_state [Message User ''//shell x''] []) =
     Some (Inr [Message System ''x''], demo_state [Message User ''//shell x''] [])"
  using handle_cmd_strips_every_marker
    [of 2 "''shell x''" "demo_env 1 (\<lambda>k. False)" 0 True "demo_state [Message User ''//shell x''] []"]
  by (simp add: parse_cmd_def handle_cmd_def lstrip_def CMDFIX_def case_shell_def demo_env_def)

section \<open>The two commands that keep their directive\<close>

text \<open>
  Claim C5. The fork and the summarize command never call \<^verbatim>\<open>undo\<close> on the transcript:
  whatever the handler does (it may also raise \<^verbatim>\<open>EOFError\<close> at the prompt for the name),
  it returns, the transcript and its persisted copy are what they were, the directive
  message included, and no \<^verbatim>\<open>undo\<close> is among the events it adds.
\<close>

theorem fork_summarize_keep_directive:
  assumes "fst (parse_cmd cmd) = ''fork'' \<or> fst (parse_cmd cmd) = ''summarize''"
  shows "\<exists>r st' es. handle_cmd E fuel cmd no_confirm st = Some (r, st') \<and>
           log st' = log st \<and> stored st' = stored st \<and>
           events st' = events st @ es \<and> (\<forall>n quiet. LogUndo n quiet \<notin> set es)"
proof -
  obtain name args where p: "parse_cmd cmd = (name, args)" by (cases "parse_cmd cmd")
  with assms consider "name = ''fork''" | "name = ''summarize''" by auto
  then show ?thesis
  proof cases
    case 1
    obtain r st1 where a: "arg0_or_input args ''New name: '' st = (r, st1)"
      by (cases "arg0_or_input args ''New name: '' st")
    from arg0_or_input_frame[OF a] have f: "log st1 = log st" "stored st1 = stored st"
      "events st1 = events st \<or> events st1 = events st @ [Input ''New name: '']" by simp_all
    show ?thesis
    proof (cases r)
      case (Inl e)
      with p 1 a have "handle_cmd E fuel cmd no_confirm st = Some (Inl e, st1)"
        by (simp add: handle_cmd_def case_fork_def)
      moreover from f(3) have "\<exists>es. events st1 = events st @ es \<and>
           (\<forall>n quiet. LogUndo n quiet \<notin> set es)"
        by (elim disjE) (rule exI[of _ "[]"], simp, rule exI[of _ "[Input ''New name: '']"], simp)
      ultimately show ?thesis using f(1,2) by blast
    next
      case (Inr new_name)
      with p 1 a have "handle_cmd E fuel cmd no_confirm st = Some (Inr [], log_fork new_name st1)"
        by (simp add: handle_cmd_def case_fork_def)
      moreover from f(3) have "\<exists>es. events (log_fork new_name st1) = events st @ es \<and>
           (\<forall>n quiet. LogUndo n quiet \<notin> set es)"
        by (elim disjE) (rule exI[of _ "[LogFork new_name]"], simp add: log_fork_def,
            rule exI[of _ "[Input ''New name: '', LogFork new_name]"], simp add: log_fork_def)
      moreover have "log (log_fork new_name st1) = log st"
        "stored (log_fork new_name st1) = stored st"
        using f(1,2) by (simp_all add: log_fork_def)
      ultimately show ?thesis by blast
    qed
  next
    case 2
    let ?s = "''Summary: '' @ summarize E (filter (\<lambda>m. \<not> hide m) (prepare_messages E (log st)))"
    from p 2 have "handle_cmd E fuel cmd no_confirm st = Some (Inr [], print ?s st)"
      by (simp add: handle_cmd_def case_summarize_def)
    moreover have "events (print ?s st) = events st @ [Print ?s] \<and>
        (\<forall>n quiet. LogUndo n quiet \<notin> set [Print ?s])"
      by (simp add: print_def)
    moreover have "log (print ?s st) = log st" "stored (print ?s st) = stored st"
      by (simp_all add: print_def)
    ultimately show ?thesis by blast
  qed
qed

theorem fork_summarize_keep_directive_witness:
  "handle_cmd (demo_env 1 (\<lambda>k. False)) 0 ''/fork copy'' True (demo_state [Message User ''/fork copy''] []) =
     Some (Inr [], log_fork ''copy'' (demo_state [Message User ''/fork copy''] [])) \<and>
   log (log_fork ''copy'' (demo_state [Message User ''/fork copy''] [])) =
     [Message User ''/fork copy'']"
proof -
  have n: "fst (parse_cmd ''/fork copy'') = ''fork'' \<or>
      fst (parse_cmd ''/fork copy'') = ''summarize''"
    by (simp add: parse_cmd_def lstrip_def CMDFIX_def)
  from fork_summarize_keep_directive[OF n, of "demo_env 1 (\<lambda>k. False)" 0 True
      "demo_state [Message User ''/fork copy''] []"]
  show ?thesis
    by (simp add: handle_cmd_def parse_cmd_def lstrip_def CMDFIX_def case_fork_def
        arg0_or_input_def log_fork_def demo_state_def)
qed

lemmas run_defs = handle_cmd_def parse_cmd_def lstrip_def CMDFIX_def arg0_or_input_def input_def
  case_shell_def case_python_def case_continue_def case_log_def case_rename_def case_fork_def
  case_summarize_def case_edit_def case_context_def case_undo_def case_load_def case_save_def
  case_exit_def case_replay_def case_impersonate_def case_default_def
  print_def print_msg_def log_print_def log_rename_def log_fork_def
  log_write_def log_undo_def log_append_def demo_env_def demo_state_def Message_def Let_def

section \<open>Recognising a directive\<close>

text \<open>
  Claim C6. A user message is dispatched as a directive exactly when the marker (the
  slash) is at position 0 of its content: then \<^verbatim>\<open>execute_cmd\<close> is what \<^verbatim>\<open>handle_cmd\<close> does
  on the content, followed by appending the yielded messages, and it never returns
  \<^verbatim>\<open>False\<close>; for every user message that does not begin with the marker it returns
  \<^verbatim>\<open>False\<close> and leaves the state, the transcript with it, as it was.
\<close>

theorem execute_cmd_marker_at_position_0:
  assumes "role msg = User"
  shows "(take 1 (content msg) = CMDFIX \<longrightarrow>
            execute_cmd E fuel msg st =
              (case handle_cmd E fuel (content msg) True st of
                 None \<Rightarrow> None
               | Some (Inl e, st1) \<Rightarrow> Some (Inl e, st1)
               | Some (Inr resps, st1) \<Rightarrow> Some (Inr True, fold log_append resps st1)) \<and>
            (\<forall>s. execute_cmd E fuel msg st \<noteq> Some (Inr False, s))) \<and>
         (take 1 (content msg) \<noteq> CMDFIX \<longrightarrow> execute_cmd E fuel msg st = Some (Inr False, st))"
  using assms
  by (auto simp: execute_cmd_def CMDFIX_def split: option.splits sum.splits prod.splits)

theorem execute_cmd_marker_at_position_0_witness:
  "execute_cmd (demo_env 1 (\<lambda>k. False)) 0 (Message User ''hello'') (demo_state [Message User ''hello''] []) =
     Some (Inr False, demo_state [Message User ''hello''] []) \<and>
   execute_cmd (demo_env 1 (\<lambda>k. False)) 0 (Message User ''/context'')
       (demo_state [Message User ''/context''] []) =
     Some (Inr True, demo_state [Message User ''/context'', Message System ''context''] [])"
proof -
  have u: "role (Message User ''hello'') = User" "role (Message User ''/context'') = User"
    by (simp_all add: Message_def)
  from execute_cmd_marker_at_position_0[OF u(1), of "demo_env 1 (\<lambda>k. False)" 0 "demo_state [Message User ''hello''] []"]
    execute_cmd_marker_at_position_0[OF u(2), of "demo_env 1 (\<lambda>k. False)" 0 "demo_state [Message User ''/context''] []"]
  show ?thesis
    by (simp add: Message_def CMDFIX_def handle_cmd_def parse_cmd_def lstrip_def case_context_def
        demo_env_def demo_state_def log_append_def)
qed

section \<open>Replay\<close>

text \<open>
  Claim C4. With the replay directive as the last entry of the transcript, the replay
  command returns without yielding a message; it removes its own directive and then only
  prints: every message that the execution of an assistant message of the transcript
  (with \<^verbatim>\<open>ask=True\<close>) produces is printed, in order, and none is appended. The
  transcript after the replay is the transcript as it was before the directive was
  entered, so it has as many messages as then, and \<^verbatim>\<open>execute_cmd\<close> appends nothing either.
\<close>

theorem replay_appends_nothing:
  assumes "fst (parse_cmd cmd) = ''replay''" and "log st = L @ [d]"
  shows "\<exists>st'. handle_cmd E fuel cmd no_confirm st = Some (Inr [], st') \<and>
           log st' = L \<and> length (log st') = length L \<and> stored st' = stored st \<and>
           events st' = events st @ [LogUndo 1 True, Print ''Replaying conversation...''] @
             map PrintMsg (concat (map (\<lambda>m. execute_msg E m True)
               (filter (\<lambda>m. role m = Assistant) L))) \<and>
           (role d = User \<and> content d = cmd \<and> take 1 cmd = ''/'' \<longrightarrow>
              execute_cmd E fuel d st = Some (Inr True, st'))"
proof -
  obtain name args where p: "parse_cmd cmd = (name, args)" by (cases "parse_cmd cmd")
  with assms(1) have n: "name = ''replay''" by simp
  let ?st1 = "print ''Replaying conversation...'' (log_undo 1 True st)"
  let ?st' = "replay_msgs E (log ?st1) ?st1"
  from p n have h: "handle_cmd E fuel cmd nc st = Some (Inr [], ?st')" for nc
    by (simp add: handle_cmd_def case_replay_def Let_def)
  have l1: "log ?st1 = L" using assms(2) by (simp add: op_defs)
  have "log ?st' = L" "stored ?st' = stored st"
    "events ?st' = events st @ [LogUndo 1 True, Print ''Replaying conversation...''] @
             map PrintMsg (concat (map (\<lambda>m. execute_msg E m True)
               (filter (\<lambda>m. role m = Assistant) L)))"
    unfolding l1 replay_msgs_eq using assms(2) by (simp_all add: op_defs)
  moreover from h have "role d = User \<and> content d = cmd \<and> take 1 cmd = ''/'' \<longrightarrow>
              execute_cmd E fuel d st = Some (Inr True, ?st')"
    by (simp add: execute_cmd_def)
  ultimately show ?thesis using h by simp
qed

theorem replay_appends_nothing_witness:
  "handle_cmd (demo_env 1 (\<lambda>k. False)) 0 ''/replay'' True
      (demo_state [Message Assistant ''ls'', Message User ''hi'', Message Assistant ''pwd'',
         Message User ''/replay''] []) =
     Some (Inr [],
       \<lparr>log = [Message Assistant ''ls'', Message User ''hi'', Message Assistant ''pwd''],
        stored = [], files = [''out.py'' \<mapsto> ''old''], stdin = [],
        events = [LogUndo 1 True, Print ''Replaying conversation...'',
          PrintMsg (Message System ''ls''), PrintMsg (Message System ''pwd'')]\<rparr>)"
proof -
  have n: "fst (parse_cmd ''/replay'') = ''replay''"
    by (simp add: parse_cmd_def lstrip_def CMDFIX_def)
  have l: "log (demo_state [Message Assistant ''ls'', Message User ''hi'', Message Assistant ''pwd'',
         Message User ''/replay''] []) =
      [Message Assistant ''ls'', Message User ''hi'', Message Assistant ''pwd''] @ [Message User ''/replay'']"
    by (simp add: demo_state_def)
  from replay_appends_nothing[OF n l, of "demo_env 1 (\<lambda>k. False)" 0 True]
  show ?thesis
    by (simp add: run_defs replay_msgs_eq)
qed

lemma lower_char_y: "lower_char c = CHR ''y'' \<longleftrightarrow> c = CHR ''y'' \<or> c = CHR ''Y''"
proof
  assume a: "lower_char c = CHR ''y''"
  let ?n = "of_char c :: nat"
  show "c = CHR ''y'' \<or> c = CHR ''Y''"
  proof (cases "(65 \<le> ?n \<and> ?n \<le> 90) \<or> (192 \<le> ?n \<and> ?n \<le> 222 \<and> ?n \<noteq> 215)")
    case True
    with a have "char_of (?n + 32) = CHR ''y''" by (simp add: lower_char_def)
    then have "(of_char (char_of (?n + 32) :: char) :: nat) = of_char (CHR ''y'')" by simp
    then have "(?n + 32) mod 256 = 121" by simp
    with True have "?n = 89" by auto
    then have "?n = (of_char (CHR ''Y'') :: nat)" by simp
    then have "c = CHR ''Y''" by (simp only: of_char_eq_iff)
    then show ?thesis ..
  next
    case False
    with a show ?thesis by (simp add: lower_char_def)
  qed
next
  have "(of_char (char_of (121::nat) :: char) :: nat) = of_char (CHR ''y'')" by simp
  then have y: "char_of (121::nat) = CHR ''y''" by (simp only: of_char_eq_iff)
  assume "c = CHR ''y'' \<or> c = CHR ''Y''"
  then show "lower_char c = CHR ''y''" by (auto simp: lower_char_def y)
qed

lemma lower_y: "lower ans = ''y'' \<longleftrightarrow> ans = ''y'' \<or> ans = ''Y''"
  by (cases ans) (auto simp: lower_def lower_char_y)

section \<open>Unknown commands and help\<close>

text \<open>
  Claim C7. For every command name that no case of \<^verbatim>\<open>handle_cmd\<close> matches (\<^verbatim>\<open>help\<close> is
  one of them), on a transcript that is not empty: the handler prints
  \<^verbatim>\<open>Unknown command\<close> exactly when the content of the last transcript entry is not
  \<^verbatim>\<open>/help\<close>, then makes the silent undo of one message, persists the transcript, and
  prints the heading and one line with name and description for every entry of the
  command table, in the order of the table; it yields nothing.
\<close>

theorem unknown_command_prints_help:
  assumes "parse_cmd cmd = (name, args)"
    and "name \<notin> {''bash'', ''sh'', ''shell'', ''python'', ''py'', ''continue'', ''log'',
          ''rename'', ''fork'', ''summarize'', ''edit'', ''context'', ''undo'', ''load'', ''save'',
          ''exit'', ''replay'', ''impersonate''}"
    and "log st \<noteq> []"
  shows "\<exists>st'. handle_cmd E fuel cmd no_confirm st = Some (Inr [], st') \<and>
           events st' = events st @
             (if content (last (log st)) \<noteq> ''/help'' then [Print ''Unknown command''] else []) @
             [LogUndo 1 True, LogWrite, Print ''Available commands:''] @
             map (\<lambda>(c, d). Print (''  '' @ c @ '': '' @ d)) action_descriptions \<and>
           log st' = butlast (log st) \<and> stored st' = butlast (log st)"
proof -
  from assms(1,2) have h: "handle_cmd E fuel cmd no_confirm st = Some (case_default st)"
    by (simp add: handle_cmd_def)
  obtain st' where d: "case_default st = (Inr [], st')"
    using assms(3) by (simp add: case_default_def Let_def)
  have b: "take (length (log st) - Suc 0) (log st) = butlast (log st)"
    by (simp add: butlast_conv_take)
  from d assms(3) have "events st' = events st @
             (if content (last (log st)) \<noteq> ''/help'' then [Print ''Unknown command''] else []) @
             [LogUndo 1 True, LogWrite, Print ''Available commands:''] @
             map (\<lambda>(c, d). Print (''  '' @ c @ '': '' @ d)) action_descriptions"
    "log st' = butlast (log st)" "stored st' = butlast (log st)"
    by (auto simp: case_default_def Let_def fold_print_descriptions op_defs CMDFIX_def b)
  with h d show ?thesis by simp
qed

theorem unknown_command_prints_help_witness:
  "parse_cmd ''/frobnicate'' = (''frobnicate'', []) \<and>
   (\<exists>st'. handle_cmd (demo_env 1 (\<lambda>k. False)) 0 ''/frobnicate'' True
            (demo_state [Message User ''hi'', Message User ''/frobnicate''] []) = Some (Inr [], st') \<and>
      log st' = [Message User ''hi''] \<and> stored st' = [Message User ''hi''] \<and>
      take 4 (events st') = [Print ''Unknown command'', LogUndo 1 True, LogWrite,
         Print ''Available commands:''] \<and>
      events st' ! 4 = Print ''  continue: Continue response'' \<and>
      length (events st') = 19)"
proof -
  have p: "parse_cmd ''/frobnicate'' = (''frobnicate'', [])"
    by (simp add: parse_cmd_def lstrip_def CMDFIX_def)
  have n: "''frobnicate'' \<notin> {''bash'', ''sh'', ''shell'', ''python'', ''py'', ''continue'', ''log'',
          ''rename'', ''fork'', ''summarize'', ''edit'', ''context'', ''undo'', ''load'', ''save'',
          ''exit'', ''replay'', ''impersonate''}" by simp
  have l: "log (demo_state [Message User ''hi'', Message User ''/frobnicate''] []) \<noteq> []"
    by (simp add: demo_state_def)
  from unknown_command_prints_help[OF p n l, of "demo_env 1 (\<lambda>k. False)" 0 True]
  show ?thesis
    by (auto simp: p demo_state_def Message_def action_descriptions_def)
qed

section \<open>The undo command\<close>

text \<open>
  The undo case first makes the silent undo of its own directive. With a first argument
  made of decimal digits it then undoes that many messages; with no argument, or with a
  first argument that \<^verbatim>\<open>isdigit\<close> rejects, it undoes one.
\<close>

lemma case_undo_decimal:
  assumes "a \<noteq> []" and "list_all (\<lambda>c. c \<in> set ''0123456789'') a"
  shows "case_undo (a # as) st =
           (Inr [], log_undo (foldl (\<lambda>n c. 10 * n + (of_char c - 48)) 0 a) False
              (log_undo 1 True st))"
proof -
  from assms have "isdigit a"
    by (auto simp: isdigit_def isdigit_char_def list_all_iff)
  with assms show ?thesis by (simp add: case_undo_def int_str_def Let_def)
qed

lemma case_undo_default:
  assumes "args = [] \<or> \<not> isdigit (hd args)"
  shows "case_undo args st = (Inr [], log_undo 1 False (log_undo 1 True st))"
  using assms by (auto simp: case_undo_def Let_def)

lemma undo_examples:
  "handle_cmd E 0 ''/undo 2'' nc st = Some (Inr [], log_undo 2 False (log_undo 1 True st))"
  "handle_cmd E 0 ''/undo -2'' nc st = Some (Inr [], log_undo 1 False (log_undo 1 True st))"
  "handle_cmd E 0 ''/undo 2x'' nc st = Some (Inr [], log_undo 1 False (log_undo 1 True st))"
  "handle_cmd E 0 ''/undo'' nc st = Some (Inr [], log_undo 1 False (log_undo 1 True st))"
  by (simp_all add: handle_cmd_def parse_cmd_def lstrip_def CMDFIX_def case_undo_def isdigit_def
      isdigit_char_def int_str_def Let_def)

text \<open>
  Claim C2. The digits-only check of the undo command is \<^verbatim>\<open>str.isdigit\<close>, which also
  accepts the superscript digits, and \<^verbatim>\<open>int\<close> does not read those. For \<^verbatim>\<open>/undo\<close>
  followed by a superscript two the handler removes its own directive and then raises
  \<^verbatim>\<open>ValueError\<close>; it does not fall back to undoing one message, as it does for every
  other first argument that is not a decimal number.
\<close>

theorem undo_superscript_digit_raises:
  "isdigit [CHR 0xB2] \<and>
   handle_cmd (demo_env 1 (\<lambda>k. False)) 0 (''/undo '' @ [CHR 0xB2]) True
      (demo_state [Message User ''a'', Message Assistant ''b'',
         Message User (''/undo '' @ [CHR 0xB2])] []) =
     Some (Inl (ValueError [CHR 0xB2]),
       log_undo 1 True (demo_state [Message User ''a'', Message Assistant ''b'',
         Message User (''/undo '' @ [CHR 0xB2])] []))"
  by (simp add: handle_cmd_def parse_cmd_def lstrip_def CMDFIX_def case_undo_def isdigit_def
      isdigit_char_def int_str_def Let_def)

section \<open>The edit session\<close>

text \<open>
  However the edit loop ends, it ends in one of two ways: interrupted, with nothing but
  printed text added to the state, or after a document that parsed to at least one
  message, with transcript and persisted copy both replaced by that list reversed.
\<close>

lemma edit_loop_result:
  "edit_loop E fuel k t st = Some (r, st') \<Longrightarrow>
     (\<exists>ps. r = Inr [Message System ''Interrupted''] \<and>
        st' = st\<lparr>events := events st @ map Print ps\<rparr>)
   \<or> (\<exists>j t0 res ps. toml_to_msgs E (edit_text_with_editor E j t0) = Inr res \<and> res \<noteq> [] \<and>
        r = Inr [] \<and>
        st' = st\<lparr>log := rev res, stored := rev res,
                 events := events st @ map Print ps @
                   [LogWrite, Print ''Applied edited messages, write /log to see the result'']\<rparr>)"
proof (induction fuel arbitrary: k t st)
  case 0
  then show ?case by simp
next
  case (Suc fuel)
  let ?t = "edit_text_with_editor E k t"
  show ?case
  proof (cases "toml_to_msgs E ?t")
    case (Inl e)
    let ?msg = "CHR 0x0A # ''Failed to parse TOML: '' @ e"
    let ?st1 = "print ?msg st"
    show ?thesis
    proof (cases "sleep_interrupted E k")
      case True
      with Inl Suc.prems have "r = Inr [Message System ''Interrupted'']" "st' = ?st1"
        by simp_all
      then have "r = Inr [Message System ''Interrupted''] \<and>
          st' = st\<lparr>events := events st @ map Print [?msg]\<rparr>"
        by (simp add: print_def)
      then show ?thesis by blast
    next
      case False
      with Inl Suc.prems have "edit_loop E fuel (Suc k) ?t ?st1 = Some (r, st')"
        by simp
      from Suc.IH[OF this] show ?thesis
      proof
        assume "\<exists>ps. r = Inr [Message System ''Interrupted''] \<and>
          st' = ?st1\<lparr>events := events ?st1 @ map Print ps\<rparr>"
        then obtain ps where "r = Inr [Message System ''Interrupted'']"
          "st' = ?st1\<lparr>events := events ?st1 @ map Print ps\<rparr>" by blast
        then have "r = Inr [Message System ''Interrupted''] \<and>
          st' = st\<lparr>events := events st @ map Print (?msg # ps)\<rparr>"
          by (simp add: print_def)
        then show ?thesis by blast
      next
        assume "\<exists>j t0 res ps. toml_to_msgs E (edit_text_with_editor E j t0) = Inr res \<and>
          res \<noteq> [] \<and> r = Inr [] \<and>
          st' = ?st1\<lparr>log := rev res, stored := rev res,
                 events := events ?st1 @ map Print ps @
                   [LogWrite, Print ''Applied edited messages, write /log to see the result'']\<rparr>"
        then obtain j t0 res ps where
          h: "toml_to_msgs E (edit_text_with_editor E j t0) = Inr res" "res \<noteq> []" "r = Inr []"
          "st' = ?st1\<lparr>log := rev res, stored := rev res,
                 events := events ?st1 @ map Print ps @
                   [LogWrite, Print ''Applied edited messages, write /log to see the result'']\<rparr>"
          by blast
        from h(4) have "st' = st\<lparr>log := rev res, stored := rev res,
                 events := events st @ map Print (?msg # ps) @
                   [LogWrite, Print ''Applied edited messages, write /log to see the result'']\<rparr>"
          by (simp add: print_def)
        with h(1-3) show ?thesis by blast
      qed
    qed
  next
    case (Inr res)
    show ?thesis
    proof (cases "res = []")
      case True
      with Inr Suc.prems have "edit_loop E fuel (Suc k) ?t st = Some (r, st')" by simp
      from Suc.IH[OF this] show ?thesis .
    next
      case False
      with Inr Suc.prems have "r = Inr []"
        "st' = print ''Applied edited messages, write /log to see the result''
                      (log_write (st\<lparr>log := rev res\<rparr>))" by simp_all
      then have "st' = st\<lparr>log := rev res, stored := rev res,
                 events := events st @ map Print [] @
                   [LogWrite, Print ''Applied edited messages, write /log to see the result'']\<rparr>"
        by (simp add: print_def log_write_def)
      with Inr False \<open>r = Inr []\<close> show ?thesis by blast
    qed
  qed
qed

lemma edit_loop_interrupted:
  assumes "\<forall>j<n. round_retries E (k + j) (edit_doc E k t j)"
    and "toml_to_msgs E (edit_text_with_editor E (k + n) (edit_doc E k t n)) = Inl e"
    and "sleep_interrupted E (k + n)"
    and "n < fuel"
  shows "\<exists>ps. edit_loop E fuel k t st =
           Some (Inr [Message System ''Interrupted''], st\<lparr>events := events st @ map Print ps\<rparr>)"
  using assms
proof (induction n arbitrary: k t st fuel)
  case 0
  then obtain f where f: "fuel = Suc f" by (cases fuel) auto
  let ?msg = "CHR 0x0A # ''Failed to parse TOML: '' @ e"
  from 0 have "edit_loop E fuel k t st =
      Some (Inr [Message System ''Interrupted''], st\<lparr>events := events st @ map Print [?msg]\<rparr>)"
    by (simp add: f print_def)
  then show ?case by blast
next
  case (Suc n)
  then obtain f where f: "fuel = Suc f" and nf: "n < f" by (cases fuel) auto
  let ?t = "edit_text_with_editor E k t"
  from Suc.prems(1) have r0: "round_retries E k t" by (auto dest: spec[of _ 0])
  have a: "\<forall>j<n. round_retries E (Suc k + j) (edit_doc E (Suc k) ?t j)"
  proof (intro allI impI)
    fix j assume "j < n"
    then have "Suc j < Suc n" by simp
    with Suc.prems(1) have "round_retries E (k + Suc j) (edit_doc E k t (Suc j))" by blast
    then show "round_retries E (Suc k + j) (edit_doc E (Suc k) ?t j)" by simp
  qed
  from Suc.prems(2) have b:
    "toml_to_msgs E (edit_text_with_editor E (Suc k + n) (edit_doc E (Suc k) ?t n)) = Inl e"
    by simp
  from Suc.prems(3) have c: "sleep_interrupted E (Suc k + n)" by simp
  show ?case
  proof (cases "toml_to_msgs E ?t")
    case (Inl e0)
    let ?msg = "CHR 0x0A # ''Failed to parse TOML: '' @ e0"
    from Inl r0 have ni: "\<not> sleep_interrupted E k" by (simp add: round_retries_def)
    from Suc.IH[OF a b c nf, of "print ?msg st"] obtain ps where
      "edit_loop E f (Suc k) ?t (print ?msg st) =
         Some (Inr [Message System ''Interrupted''],
           (print ?msg st)\<lparr>events := events (print ?msg st) @ map Print ps\<rparr>)" by blast
    with Inl ni have "edit_loop E fuel k t st =
         Some (Inr [Message System ''Interrupted''],
           st\<lparr>events := events st @ map Print (?msg # ps)\<rparr>)"
      by (simp add: f print_def)
    then show ?thesis by blast
  next
    case (Inr res)
    with r0 have e: "res = []" by (simp add: round_retries_def)
    from Suc.IH[OF a b c nf, of st] obtain ps where
      "edit_loop E f (Suc k) ?t st =
         Some (Inr [Message System ''Interrupted''], st\<lparr>events := events st @ map Print ps\<rparr>)"
      by blast
    with Inr e have "edit_loop E fuel k t st =
         Some (Inr [Message System ''Interrupted''], st\<lparr>events := events st @ map Print ps\<rparr>)"
      by (simp add: f)
    then show ?thesis by blast
  qed
qed

lemma retries_shift:
  assumes "round_retries E k t"
    and "\<forall>j<m. round_retries E (Suc k + j) (edit_doc E (Suc k) (edit_text_with_editor E k t) j)"
  shows "\<forall>j<Suc m. round_retries E (k + j) (edit_doc E k t j)"
proof (intro allI impI)
  fix j assume j: "j < Suc m"
  show "round_retries E (k + j) (edit_doc E k t j)"
  proof (cases j)
    case 0
    with assms(1) show ?thesis by simp
  next
    case (Suc i)
    with j have "i < m" by simp
    with assms(2) have "round_retries E (Suc k + i)
        (edit_doc E (Suc k) (edit_text_with_editor E k t) i)" by blast
    with Suc show ?thesis by simp
  qed
qed

lemma edit_loop_success:
  assumes "\<forall>j<n. round_retries E (k + j) (edit_doc E k t j)"
    and "toml_to_msgs E (edit_text_with_editor E (k + n) (edit_doc E k t n)) = Inr res"
    and "res \<noteq> []"
    and "n < fuel"
  shows "\<exists>ps. edit_loop E fuel k t st =
           Some (Inr [], st\<lparr>log := rev res, stored := rev res,
             events := events st @ map Print ps @
               [LogWrite, Print ''Applied edited messages, write /log to see the result'']\<rparr>)"
  using assms
proof (induction n arbitrary: k t st fuel)
  case 0
  then obtain f where f: "fuel = Suc f" by (cases fuel) auto
  from 0 have "edit_loop E fuel k t st =
      Some (Inr [], st\<lparr>log := rev res, stored := rev res,
             events := events st @ map Print [] @
               [LogWrite, Print ''Applied edited messages, write /log to see the result'']\<rparr>)"
    by (simp add: f print_def log_write_def)
  then show ?case by blast
next
  case (Suc n)
  then obtain f where f: "fuel = Suc f" and nf: "n < f" by (cases fuel) auto
  let ?t = "edit_text_with_editor E k t"
  from Suc.prems(1) have r0: "round_retries E k t" by (auto dest: spec[of _ 0])
  have a: "\<forall>j<n. round_retries E (Suc k + j) (edit_doc E (Suc k) ?t j)"
  proof (intro allI impI)
    fix j assume "j < n"
    then have "Suc j < Suc n" by simp
    with Suc.prems(1) have "round_retries E (k + Suc j) (edit_doc E k t (Suc j))" by blast
    then show "round_retries E (Suc k + j) (edit_doc E (Suc k) ?t j)" by simp
  qed
  from Suc.prems(2) have b:
    "toml_to_msgs E (edit_text_with_editor E (Suc k + n) (edit_doc E (Suc k) ?t n)) = Inr res"
    by simp
  show ?case
  proof (cases "toml_to_msgs E ?t")
    case (Inl e0)
    let ?msg = "CHR 0x0A # ''Failed to parse TOML: '' @ e0"
    from Inl r0 have ni: "\<not> sleep_interrupted E k" by (simp add: round_retries_def)
    from Suc.IH[OF a b Suc.prems(3) nf, of "print ?msg st"] obtain ps where
      "edit_loop E f (Suc k) ?t (print ?msg st) =
         Some (Inr [], (print ?msg st)\<lparr>log := rev res, stored := rev res,
           events := events (print ?msg st) @ map Print ps @
             [LogWrite, Print ''Applied edited messages, write /log to see the result'']\<rparr>)"
      by blast
    with Inl ni have "edit_loop E fuel k t st =
         Some (Inr [], st\<lparr>log := rev res, stored := rev res,
           events := events st @ map Print (?msg # ps) @
             [LogWrite, Print ''Applied edited messages, write /log to see the result'']\<rparr>)"
      by (simp add: f print_def)
    then show ?thesis by blast
  next
    case (Inr res0)
    with r0 have e: "res0 = []" by (simp add: round_retries_def)
    from Suc.IH[OF a b Suc.prems(3) nf, of st] obtain ps where
      "edit_loop E f (Suc k) ?t st =
         Some (Inr [], st\<lparr>log := rev res, stored := rev res,
           events := events st @ map Print ps @
             [LogWrite, Print ''Applied edited messages, write /log to see the result'']\<rparr>)"
      by blast
    with Inr e have "edit_loop E fuel k t st =
         Some (Inr [], st\<lparr>log := rev res, stored := rev res,
           events := events st @ map Print ps @
             [LogWrite, Print ''Applied edited messages, write /log to see the result'']\<rparr>)"
      by (simp add: f)
    then show ?thesis by blast
  qed
qed

lemma edit_loop_outcome:
  assumes "edit_loop E fuel k t st = Some (r, st')"
  shows "\<exists>n ps. n < fuel \<and> (\<forall>j<n. round_retries E (k + j) (edit_doc E k t j)) \<and>
     ((\<exists>e. toml_to_msgs E (edit_text_with_editor E (k + n) (edit_doc E k t n)) = Inl e \<and>
           sleep_interrupted E (k + n) \<and> r = Inr [Message System ''Interrupted''] \<and>
           st' = st\<lparr>events := events st @ map Print ps\<rparr>)
      \<or> (\<exists>res. toml_to_msgs E (edit_text_with_editor E (k + n) (edit_doc E k t n)) = Inr res \<and>
           res \<noteq> [] \<and> r = Inr [] \<and>
           st' = st\<lparr>log := rev res, stored := rev res,
             events := events st @ map Print ps @
               [LogWrite, Print ''Applied edited messages, write /log to see the result'']\<rparr>))"
  using assms
proof (induction fuel arbitrary: k t st)
  case 0
  then show ?case by simp
next
  case (Suc fuel)
  let ?t = "edit_text_with_editor E k t"
  have step: "\<exists>n ps. n < Suc fuel \<and> (\<forall>j<n. round_retries E (k + j) (edit_doc E k t j)) \<and>
     ((\<exists>e. toml_to_msgs E (edit_text_with_editor E (k + n) (edit_doc E k t n)) = Inl e \<and>
           sleep_interrupted E (k + n) \<and> r = Inr [Message System ''Interrupted''] \<and>
           st' = st\<lparr>events := events st @ map Print ps\<rparr>)
      \<or> (\<exists>res. toml_to_msgs E (edit_text_with_editor E (k + n) (edit_doc E k t n)) = Inr res \<and>
           res \<noteq> [] \<and> r = Inr [] \<and>
           st' = st\<lparr>log := rev res, stored := rev res,
             events := events st @ map Print ps @
               [LogWrite, Print ''Applied edited messages, write /log to see the result'']\<rparr>))"
    if r0: "round_retries E k t"
      and run: "edit_loop E fuel (Suc k) ?t (st\<lparr>events := events st @ map Print qs\<rparr>) =
                  Some (r, st')" for qs
  proof -
    let ?s1 = "st\<lparr>events := events st @ map Print qs\<rparr>"
    from Suc.IH[OF run] obtain m ps where m: "m < fuel"
      and a: "\<forall>j<m. round_retries E (Suc k + j) (edit_doc E (Suc k) ?t j)"
      and d: "(\<exists>e. toml_to_msgs E (edit_text_with_editor E (Suc k + m)
                 (edit_doc E (Suc k) ?t m)) = Inl e \<and>
           sleep_interrupted E (Suc k + m) \<and> r = Inr [Message System ''Interrupted''] \<and>
           st' = ?s1\<lparr>events := events ?s1 @ map Print ps\<rparr>)
      \<or> (\<exists>res. toml_to_msgs E (edit_text_with_editor E (Suc k + m)
                 (edit_doc E (Suc k) ?t m)) = Inr res \<and>
           res \<noteq> [] \<and> r = Inr [] \<and>
           st' = ?s1\<lparr>log := rev res, stored := rev res,
             events := events ?s1 @ map Print ps @
               [LogWrite, Print ''Applied edited messages, write /log to see the result'']\<rparr>)"
      by blast
    have b: "\<forall>j<Suc m. round_retries E (k + j) (edit_doc E k t j)"
      by (rule retries_shift[OF r0 a])
    from d have c: "(\<exists>e. toml_to_msgs E (edit_text_with_editor E (k + Suc m)
                 (edit_doc E k t (Suc m))) = Inl e \<and>
           sleep_interrupted E (k + Suc m) \<and> r = Inr [Message System ''Interrupted''] \<and>
           st' = st\<lparr>events := events st @ map Print (qs @ ps)\<rparr>)
      \<or> (\<exists>res. toml_to_msgs E (edit_text_with_editor E (k + Suc m)
                 (edit_doc E k t (Suc m))) = Inr res \<and>
           res \<noteq> [] \<and> r = Inr [] \<and>
           st' = st\<lparr>log := rev res, stored := rev res,
             events := events st @ map Print (qs @ ps) @
               [LogWrite, Print ''Applied edited messages, write /log to see the result'']\<rparr>)"
      by simp
    from m have "Suc m < Suc fuel" by simp
    with b c show ?thesis by blast
  qed
  show ?case
  proof (cases "toml_to_msgs E ?t")
    case (Inl e)
    let ?msg = "CHR 0x0A # ''Failed to parse TOML: '' @ e"
    show ?thesis
    proof (cases "sleep_interrupted E k")
      case True
      with Inl Suc.prems have "r = Inr [Message System ''Interrupted'']"
        "st' = st\<lparr>events := events st @ map Print [?msg]\<rparr>"
        by (simp_all add: print_def)
      with Inl True have "(0::nat) < Suc fuel \<and>
        (\<forall>j<0. round_retries E (k + j) (edit_doc E k t j)) \<and>
        ((\<exists>e. toml_to_msgs E (edit_text_with_editor E (k + 0) (edit_doc E k t 0)) = Inl e \<and>
           sleep_interrupted E (k + 0) \<and> r = Inr [Message System ''Interrupted''] \<and>
           st' = st\<lparr>events := events st @ map Print [?msg]\<rparr>)
         \<or> (\<exists>res. toml_to_msgs E (edit_text_with_editor E (k + 0) (edit_doc E k t 0)) = Inr res \<and>
           res \<noteq> [] \<and> r = Inr [] \<and>
           st' = st\<lparr>log := rev res, stored := rev res,
             events := events st @ map Print [?msg] @
               [LogWrite, Print ''Applied edited messages, write /log to see the result'']\<rparr>))"
        by simp
      then show ?thesis by blast
    next
      case False
      with Inl have r0: "round_retries E k t" by (simp add: round_retries_def)
      from Inl False Suc.prems
      have "edit_loop E fuel (Suc k) ?t (st\<lparr>events := events st @ map Print [?msg]\<rparr>) =
              Some (r, st')"
        by (simp add: print_def)
      from step[OF r0 this] show ?thesis .
    qed
  next
    case (Inr res)
    show ?thesis
    proof (cases "res = []")
      case True
      with Inr have r0: "round_retries E k t" by (simp add: round_retries_def)
      from Inr True Suc.prems
      have "edit_loop E fuel (Suc k) ?t (st\<lparr>events := events st @ map Print []\<rparr>) =
              Some (r, st')"
        by simp
      from step[OF r0 this] show ?thesis .
    next
      case False
      with Inr Suc.prems have "r = Inr []"
        "st' = st\<lparr>log := rev res, stored := rev res,
             events := events st @ map Print [] @
               [LogWrite, Print ''Applied edited messages, write /log to see the result'']\<rparr>"
        by (simp_all add: print_def log_write_def)
      with Inr False have "(0::nat) < Suc fuel \<and>
        (\<forall>j<0. round_retries E (k + j) (edit_doc E k t j)) \<and>
        ((\<exists>e. toml_to_msgs E (edit_text_with_editor E (k + 0) (edit_doc E k t 0)) = Inl e \<and>
           sleep_interrupted E (k + 0) \<and> r = Inr [Message System ''Interrupted''] \<and>
           st' = st\<lparr>events := events st @ map Print []\<rparr>)
         \<or> (\<exists>res. toml_to_msgs E (edit_text_with_editor E (k + 0) (edit_doc E k t 0)) = Inr res \<and>
           res \<noteq> [] \<and> r = Inr [] \<and>
           st' = st\<lparr>log := rev res, stored := rev res,
             events := events st @ map Print [] @
               [LogWrite, Print ''Applied edited messages, write /log to see the result'']\<rparr>))"
        by simp
      then show ?thesis by blast
    qed
  qed
qed

lemma demo_edit_run:
  "handle_cmd (demo_env 1 (\<lambda>k. False)) (Suc (Suc 0)) ''/edit'' True
      (demo_state [Message User ''hi'', Message User ''/edit''] []) =
     Some (Inr [],
       \<lparr>log = [Message User ''hello''], stored = [Message User ''hello''],
        files = [''out.py'' \<mapsto> ''old''], stdin = [],
        events = [LogUndo 1 True, Print (CHR 0x0A # ''Failed to parse TOML: bad''), LogWrite,
          Print ''Applied edited messages, write /log to see the result'']\<rparr>)"
  by (simp add: run_defs)

text \<open>
  Claim C3. Let \<open>t0\<close> be the document the edit command hands to the editor first, and
  let the document of round \<open>j\<close> be what the editor returns in that round. (1) If the
  rounds before round \<open>n\<close> neither succeed nor are interrupted and the document of round
  \<open>n\<close> parses to a list of messages that is not empty, then (given fuel for these rounds)
  the command returns, and the transcript and its persisted copy are exactly that list
  reversed, written by a \<^verbatim>\<open>write\<close> among the new events. (2) Whenever the command
  returns, it does so in some round \<open>m\<close> that the rounds before it led to by retrying: either
  the document of round \<open>m\<close> failed to parse and the pause was interrupted, and then the
  transcript is what the silent undo of the directive left, nothing was persisted and no
  \<^verbatim>\<open>write\<close> is among the new events; or the document of round \<open>m\<close> parsed to a list that
  is not empty, and the transcript and its persisted copy are exactly that list reversed.
  (3) A round whose document fails to parse changes neither the transcript nor the
  persisted copy: it goes on with the next round, or ends the handler when the pause is
  interrupted, from a state with the same transcript and the same persisted copy.
\<close>

theorem edit_replaces_only_after_parse:
  assumes "fst (parse_cmd cmd) = ''edit''"
    and "t0 = msgs_to_toml E (rev (log (log_undo 1 True st)))"
  shows "((\<forall>j<n. round_retries E j (edit_doc E 0 t0 j)) \<and>
            toml_to_msgs E (edit_text_with_editor E n (edit_doc E 0 t0 n)) = Inr res \<and>
            res \<noteq> [] \<and> n < fuel \<longrightarrow>
            (\<exists>st'. handle_cmd E fuel cmd no_confirm st = Some (Inr [], st') \<and>
               log st' = rev res \<and> stored st' = rev res \<and>
               LogWrite \<in> set (drop (length (events st)) (events st')))) \<and>
         (handle_cmd E fuel cmd no_confirm st = Some (r, st1) \<longrightarrow>
            (\<exists>m<fuel. (\<forall>j<m. round_retries E j (edit_doc E 0 t0 j)) \<and>
               ((\<exists>e. toml_to_msgs E (edit_text_with_editor E m (edit_doc E 0 t0 m)) = Inl e \<and>
                   sleep_interrupted E m \<and> r = Inr [Message System ''Interrupted''] \<and>
                   log st1 = log (log_undo 1 True st) \<and> stored st1 = stored st \<and>
                   LogWrite \<notin> set (drop (length (events st)) (events st1)))
                \<or> (\<exists>res1. toml_to_msgs E (edit_text_with_editor E m (edit_doc E 0 t0 m)) =
                      Inr res1 \<and> res1 \<noteq> [] \<and> r = Inr [] \<and>
                   log st1 = rev res1 \<and> stored st1 = rev res1)))) \<and>
         (toml_to_msgs E (edit_text_with_editor E k t) = Inl e \<longrightarrow>
            (\<exists>s1. log s1 = log s \<and> stored s1 = stored s \<and>
                edit_loop E (Suc f) k t s =
                  (if sleep_interrupted E k then Some (Inr [Message System ''Interrupted''], s1)
                   else edit_loop E f (Suc k) (edit_text_with_editor E k t) s1)))"
proof -
  let ?u = "log_undo 1 True st"
  obtain name args where p: "parse_cmd cmd = (name, args)" by (cases "parse_cmd cmd")
  with assms(1) have "name = ''edit''" by simp
  with p assms(2) have h: "handle_cmd E fuel cmd no_confirm st = edit_loop E fuel 0 t0 ?u"
    by (simp add: handle_cmd_def case_edit_def Let_def)
  have applied: "(\<forall>j<n. round_retries E j (edit_doc E 0 t0 j)) \<and>
            toml_to_msgs E (edit_text_with_editor E n (edit_doc E 0 t0 n)) = Inr res \<and>
            res \<noteq> [] \<and> n < fuel \<longrightarrow>
            (\<exists>st'. handle_cmd E fuel cmd no_confirm st = Some (Inr [], st') \<and>
               log st' = rev res \<and> stored st' = rev res \<and>
               LogWrite \<in> set (drop (length (events st)) (events st')))"
  proof
    assume a: "(\<forall>j<n. round_retries E j (edit_doc E 0 t0 j)) \<and>
            toml_to_msgs E (edit_text_with_editor E n (edit_doc E 0 t0 n)) = Inr res \<and>
            res \<noteq> [] \<and> n < fuel"
    then have a1: "\<forall>j<n. round_retries E (0 + j) (edit_doc E 0 t0 j)"
      and a2: "toml_to_msgs E (edit_text_with_editor E (0 + n) (edit_doc E 0 t0 n)) = Inr res"
      and a3: "res \<noteq> []" and a4: "n < fuel" by simp_all
    from edit_loop_success[OF a1 a2 a3 a4, of ?u] obtain ps where
      l: "edit_loop E fuel 0 t0 ?u =
           Some (Inr [], ?u\<lparr>log := rev res, stored := rev res,
             events := events ?u @ map Print ps @
               [LogWrite, Print ''Applied edited messages, write /log to see the result'']\<rparr>)"
      by blast
    let ?st' = "?u\<lparr>log := rev res, stored := rev res,
             events := events ?u @ map Print ps @
               [LogWrite, Print ''Applied edited messages, write /log to see the result'']\<rparr>"
    have "log ?st' = rev res" "stored ?st' = rev res"
      "LogWrite \<in> set (drop (length (events st)) (events ?st'))"
      by (simp_all add: log_undo_def)
    with h l show "\<exists>st'. handle_cmd E fuel cmd no_confirm st = Some (Inr [], st') \<and>
               log st' = rev res \<and> stored st' = rev res \<and>
               LogWrite \<in> set (drop (length (events st)) (events st'))"
      by simp
  qed
  have only: "handle_cmd E fuel cmd no_confirm st = Some (r, st1) \<longrightarrow>
            (\<exists>m<fuel. (\<forall>j<m. round_retries E j (edit_doc E 0 t0 j)) \<and>
               ((\<exists>e. toml_to_msgs E (edit_text_with_editor E m (edit_doc E 0 t0 m)) = Inl e \<and>
                   sleep_interrupted E m \<and> r = Inr [Message System ''Interrupted''] \<and>
                   log st1 = log (log_undo 1 True st) \<and> stored st1 = stored st \<and>
                   LogWrite \<notin> set (drop (length (events st)) (events st1)))
                \<or> (\<exists>res1. toml_to_msgs E (edit_text_with_editor E m (edit_doc E 0 t0 m)) =
                      Inr res1 \<and> res1 \<noteq> [] \<and> r = Inr [] \<and>
                   log st1 = rev res1 \<and> stored st1 = rev res1)))"
  proof
    assume "handle_cmd E fuel cmd no_confirm st = Some (r, st1)"
    with h have "edit_loop E fuel 0 t0 ?u = Some (r, st1)" by simp
    from edit_loop_outcome[OF this] obtain m ps where m: "m < fuel"
      and a: "\<forall>j<m. round_retries E (0 + j) (edit_doc E 0 t0 j)"
      and d: "(\<exists>e. toml_to_msgs E (edit_text_with_editor E (0 + m) (edit_doc E 0 t0 m)) = Inl e \<and>
           sleep_interrupted E (0 + m) \<and> r = Inr [Message System ''Interrupted''] \<and>
           st1 = ?u\<lparr>events := events ?u @ map Print ps\<rparr>)
      \<or> (\<exists>res. toml_to_msgs E (edit_text_with_editor E (0 + m) (edit_doc E 0 t0 m)) = Inr res \<and>
           res \<noteq> [] \<and> r = Inr [] \<and>
           st1 = ?u\<lparr>log := rev res, stored := rev res,
             events := events ?u @ map Print ps @
               [LogWrite, Print ''Applied edited messages, write /log to see the result'']\<rparr>)"
      by blast
    from a have a': "\<forall>j<m. round_retries E j (edit_doc E 0 t0 j)" by simp
    from d have "(\<exists>e. toml_to_msgs E (edit_text_with_editor E m (edit_doc E 0 t0 m)) = Inl e \<and>
                   sleep_interrupted E m \<and> r = Inr [Message System ''Interrupted''] \<and>
                   log st1 = log (log_undo 1 True st) \<and> stored st1 = stored st \<and>
                   LogWrite \<notin> set (drop (length (events st)) (events st1)))
                \<or> (\<exists>res1. toml_to_msgs E (edit_text_with_editor E m (edit_doc E 0 t0 m)) =
                      Inr res1 \<and> res1 \<noteq> [] \<and> r = Inr [] \<and>
                   log st1 = rev res1 \<and> stored st1 = rev res1)"
    proof
      assume "\<exists>e. toml_to_msgs E (edit_text_with_editor E (0 + m) (edit_doc E 0 t0 m)) = Inl e \<and>
           sleep_interrupted E (0 + m) \<and> r = Inr [Message System ''Interrupted''] \<and>
           st1 = ?u\<lparr>events := events ?u @ map Print ps\<rparr>"
      then have "\<exists>e. toml_to_msgs E (edit_text_with_editor E m (edit_doc E 0 t0 m)) = Inl e \<and>
                   sleep_interrupted E m \<and> r = Inr [Message System ''Interrupted''] \<and>
                   log st1 = log (log_undo 1 True st) \<and> stored st1 = stored st \<and>
                   LogWrite \<notin> set (drop (length (events st)) (events st1))"
        by (auto simp: log_undo_def)
      then show ?thesis ..
    next
      assume "\<exists>res. toml_to_msgs E (edit_text_with_editor E (0 + m) (edit_doc E 0 t0 m)) =
           Inr res \<and> res \<noteq> [] \<and> r = Inr [] \<and>
           st1 = ?u\<lparr>log := rev res, stored := rev res,
             events := events ?u @ map Print ps @
               [LogWrite, Print ''Applied edited messages, write /log to see the result'']\<rparr>"
      then have "\<exists>res1. toml_to_msgs E (edit_text_with_editor E m (edit_doc E 0 t0 m)) =
                      Inr res1 \<and> res1 \<noteq> [] \<and> r = Inr [] \<and>
                   log st1 = rev res1 \<and> stored st1 = rev res1"
        by auto
      then show ?thesis ..
    qed
    with m a' show "\<exists>m<fuel. (\<forall>j<m. round_retries E j (edit_doc E 0 t0 j)) \<and>
               ((\<exists>e. toml_to_msgs E (edit_text_with_editor E m (edit_doc E 0 t0 m)) = Inl e \<and>
                   sleep_interrupted E m \<and> r = Inr [Message System ''Interrupted''] \<and>
                   log st1 = log (log_undo 1 True st) \<and> stored st1 = stored st \<and>
                   LogWrite \<notin> set (drop (length (events st)) (events st1)))
                \<or> (\<exists>res1. toml_to_msgs E (edit_text_with_editor E m (edit_doc E 0 t0 m)) =
                      Inr res1 \<and> res1 \<noteq> [] \<and> r = Inr [] \<and>
                   log st1 = rev res1 \<and> stored st1 = rev res1))"
      by blast
  qed
  have failed: "toml_to_msgs E (edit_text_with_editor E k t) = Inl e \<longrightarrow>
            (\<exists>s1. log s1 = log s \<and> stored s1 = stored s \<and>
                edit_loop E (Suc f) k t s =
                  (if sleep_interrupted E k then Some (Inr [Message System ''Interrupted''], s1)
                   else edit_loop E f (Suc k) (edit_text_with_editor E k t) s1))"
  proof
    assume i: "toml_to_msgs E (edit_text_with_editor E k t) = Inl e"
    let ?s1 = "print (CHR 0x0A # ''Failed to parse TOML: '' @ e) s"
    have "log ?s1 = log s \<and> stored ?s1 = stored s \<and>
                edit_loop E (Suc f) k t s =
                  (if sleep_interrupted E k then Some (Inr [Message System ''Interrupted''], ?s1)
                   else edit_loop E f (Suc k) (edit_text_with_editor E k t) ?s1)"
      using i by (simp add: print_def)
    then show "\<exists>s1. log s1 = log s \<and> stored s1 = stored s \<and>
                edit_loop E (Suc f) k t s =
                  (if sleep_interrupted E k then Some (Inr [Message System ''Interrupted''], s1)
                   else edit_loop E f (Suc k) (edit_text_with_editor E k t) s1)" by blast
  qed
  from applied only failed show ?thesis by blast
qed

theorem edit_replaces_only_after_parse_witness:
  "fst (parse_cmd ''/edit'') = ''edit'' \<and>
   round_retries (demo_env 1 (\<lambda>k. False)) 0 ''hi'' \<and>
   toml_to_msgs (demo_env 1 (\<lambda>k. False))
      (edit_text_with_editor (demo_env 1 (\<lambda>k. False)) 0 ''hi'') = Inl ''bad'' \<and>
   toml_to_msgs (demo_env 1 (\<lambda>k. False))
      (edit_text_with_editor (demo_env 1 (\<lambda>k. False)) 1 ''??'') = Inr [Message User ''hello''] \<and>
   (\<exists>st'. handle_cmd (demo_env 1 (\<lambda>k. False)) (Suc (Suc 0)) ''/edit'' True
        (demo_state [Message User ''hi'', Message User ''/edit''] []) = Some (Inr [], st') \<and>
      log st' = rev [Message User ''hello''] \<and> stored st' = rev [Message User ''hello''] \<and>
      LogWrite \<in> set (drop (length (events
        (demo_state [Message User ''hi'', Message User ''/edit''] []))) (events st'))) \<and>
   handle_cmd (demo_env 1 (\<lambda>k. False)) (Suc (Suc 0)) ''/edit'' True
      (demo_state [Message User ''hi'', Message User ''/edit''] []) =
     Some (Inr [],
       \<lparr>log = [Message User ''hello''], stored = [Message User ''hello''],
        files = [''out.py'' \<mapsto> ''old''], stdin = [],
        events = [LogUndo 1 True, Print (CHR 0x0A # ''Failed to parse TOML: bad''), LogWrite,
          Print ''Applied edited messages, write /log to see the result'']\<rparr>)"
proof -
  let ?E = "demo_env 1 (\<lambda>k. False)"
  let ?st = "demo_state [Message User ''hi'', Message User ''/edit''] []"
  have n: "fst (parse_cmd ''/edit'') = ''edit''"
    by (simp add: parse_cmd_def lstrip_def CMDFIX_def)
  have t0: "''hi'' = msgs_to_toml ?E (rev (log (log_undo 1 True ?st)))"
    by (simp add: run_defs)
  have r: "round_retries ?E 0 ''hi''"
    by (simp add: round_retries_def demo_env_def)
  have t: "toml_to_msgs ?E (edit_text_with_editor ?E 0 ''hi'') = Inl ''bad''"
    "toml_to_msgs ?E (edit_text_with_editor ?E 1 ''??'') = Inr [Message User ''hello'']"
    by (simp_all add: demo_env_def)
  have a: "(\<forall>j<Suc 0. round_retries ?E j (edit_doc ?E 0 ''hi'' j)) \<and>
      toml_to_msgs ?E (edit_text_with_editor ?E (Suc 0) (edit_doc ?E 0 ''hi'' (Suc 0))) =
        Inr [Message User ''hello''] \<and>
      [Message User ''hello''] \<noteq> [] \<and> Suc 0 < Suc (Suc 0)"
    using r by (simp add: demo_env_def)
  from edit_replaces_only_after_parse[OF n t0, where n = "Suc 0"
      and res = "[Message User ''hello'']" and fuel = "Suc (Suc 0)" and no_confirm = True]
  have "(\<forall>j<Suc 0. round_retries ?E j (edit_doc ?E 0 ''hi'' j)) \<and>
      toml_to_msgs ?E (edit_text_with_editor ?E (Suc 0) (edit_doc ?E 0 ''hi'' (Suc 0))) =
        Inr [Message User ''hello''] \<and>
      [Message User ''hello''] \<noteq> [] \<and> Suc 0 < Suc (Suc 0) \<longrightarrow>
      (\<exists>st'. handle_cmd ?E (Suc (Suc 0)) ''/edit'' True ?st = Some (Inr [], st') \<and>
         log st' = rev [Message User ''hello''] \<and> stored st' = rev [Message User ''hello''] \<and>
         LogWrite \<in> set (drop (length (events ?st)) (events st')))"
    by (rule conjunct1)
  from this a have "\<exists>st'. handle_cmd ?E (Suc (Suc 0)) ''/edit'' True ?st = Some (Inr [], st') \<and>
         log st' = rev [Message User ''hello''] \<and> stored st' = rev [Message User ''hello''] \<and>
         LogWrite \<in> set (drop (length (events ?st)) (events st'))"
    by (rule mp)
  with n r t demo_edit_run show ?thesis by simp
qed

text \<open>
  Claim C9. If the first \<open>n\<close> rounds of the edit loop neither succeed nor are
  interrupted, the document of the next round fails to parse and the pause after it is
  interrupted, then (given fuel for these rounds) the edit command returns having yielded
  exactly one message, the system message \<^verbatim>\<open>Interrupted\<close>; the transcript is what the
  silent undo of the directive left, the persisted copy is untouched and no \<^verbatim>\<open>write\<close>
  is among the new events.
\<close>

theorem edit_interrupt_aborts:
  assumes "fst (parse_cmd cmd) = ''edit''"
    and "\<forall>j<n. round_retries E j
            (edit_doc E 0 (msgs_to_toml E (rev (log (log_undo 1 True st)))) j)"
    and "toml_to_msgs E (edit_text_with_editor E n
            (edit_doc E 0 (msgs_to_toml E (rev (log (log_undo 1 True st)))) n)) = Inl e"
    and "sleep_interrupted E n"
    and "n < fuel"
  shows "\<exists>st'. handle_cmd E fuel cmd no_confirm st =
             Some (Inr [Message System ''Interrupted''], st') \<and>
           role (Message System ''Interrupted'') = System \<and>
           log st' = log (log_undo 1 True st) \<and> stored st' = stored st \<and>
           LogWrite \<notin> set (drop (length (events st)) (events st'))"
proof -
  let ?st1 = "log_undo 1 True st"
  let ?t = "msgs_to_toml E (rev (log ?st1))"
  obtain name args where p: "parse_cmd cmd = (name, args)" by (cases "parse_cmd cmd")
  with assms(1) have "name = ''edit''" by simp
  with p have h: "handle_cmd E fuel cmd no_confirm st = edit_loop E fuel 0 ?t ?st1"
    by (simp add: handle_cmd_def case_edit_def Let_def)
  from assms(2) have a: "\<forall>j<n. round_retries E (0 + j) (edit_doc E 0 ?t j)" by simp
  from assms(3) have b: "toml_to_msgs E (edit_text_with_editor E (0 + n) (edit_doc E 0 ?t n)) = Inl e"
    by simp
  from assms(4) have c: "sleep_interrupted E (0 + n)" by simp
  from edit_loop_interrupted[OF a b c assms(5), of ?st1] obtain ps where
    l: "edit_loop E fuel 0 ?t ?st1 =
         Some (Inr [Message System ''Interrupted''], ?st1\<lparr>events := events ?st1 @ map Print ps\<rparr>)"
    by blast
  let ?st' = "?st1\<lparr>events := events ?st1 @ map Print ps\<rparr>"
  have "log ?st' = log ?st1" "stored ?st' = stored st"
    "LogWrite \<notin> set (drop (length (events st)) (events ?st'))"
    by (auto simp: log_undo_def)
  moreover have "role (Message System ''Interrupted'') = System" by (simp add: Message_def)
  ultimately show ?thesis using h l by simp
qed

theorem edit_interrupt_aborts_witness:
  "fst (parse_cmd ''/edit'') = ''edit'' \<and>
   round_retries (demo_env 2 (\<lambda>k. k = 1)) 0 ''hi'' \<and>
   toml_to_msgs (demo_env 2 (\<lambda>k. k = 1))
     (edit_text_with_editor (demo_env 2 (\<lambda>k. k = 1)) 1 ''??'') = Inl ''bad'' \<and>
   handle_cmd (demo_env 2 (\<lambda>k. k = 1)) (Suc (Suc 0)) ''/edit'' True
      (demo_state [Message User ''hi'', Message User ''/edit''] []) =
     Some (Inr [Message System ''Interrupted''],
       \<lparr>log = [Message User ''hi''], stored = [],
        files = [''out.py'' \<mapsto> ''old''], stdin = [],
        events = [LogUndo 1 True, Print (CHR 0x0A # ''Failed to parse TOML: bad''),
          Print (CHR 0x0A # ''Failed to parse TOML: bad'')]\<rparr>)"
proof -
  let ?E = "demo_env 2 (\<lambda>k. k = 1)"
  let ?st = "demo_state [Message User ''hi'', Message User ''/edit''] []"
  have n: "fst (parse_cmd ''/edit'') = ''edit''"
    by (simp add: parse_cmd_def lstrip_def CMDFIX_def)
  have t0: "msgs_to_toml ?E (rev (log (log_undo 1 True ?st))) = ''hi''"
    by (simp add: run_defs)
  have r: "round_retries ?E 0 ''hi''"
    by (simp add: round_retries_def demo_env_def)
  have a: "\<forall>j<Suc 0. round_retries ?E j
            (edit_doc ?E 0 (msgs_to_toml ?E (rev (log (log_undo 1 True ?st)))) j)"
    unfolding t0 using r by simp
  have b: "toml_to_msgs ?E (edit_text_with_editor ?E (Suc 0)
            (edit_doc ?E 0 (msgs_to_toml ?E (rev (log (log_undo 1 True ?st)))) (Suc 0))) = Inl ''bad''"
    unfolding t0 by (simp add: demo_env_def)
  have c: "sleep_interrupted ?E (Suc 0)" by (simp add: demo_env_def)
  have d: "Suc 0 < Suc (Suc 0)" by simp
  from edit_interrupt_aborts[OF n a b c d, of True]
  show ?thesis using n r by (simp add: run_defs)
qed

section \<open>Saving over an existing file\<close>

text \<open>
  Claim C8. When the save command has found a code block and the file name (the first
  argument or the line read at the prompt) names an existing file, the handler asks
  whether to overwrite; the answer lowercased equals \<^verbatim>\<open>y\<close> exactly for \<^verbatim>\<open>y\<close> and
  \<^verbatim>\<open>Y\<close>, and only then is the file written. For every other answer the handler
  returns right after the prompt and the files are what they were.
\<close>

theorem save_overwrite_only_on_y:
  assumes "parse_cmd cmd = (''save'', args)"
    and "get_last_code_block E (log (log_undo 1 True st)) = Some code" and "code \<noteq> []"
    and "arg0_or_input args ''Filename: '' (log_undo 1 True st) = (Inr filename, st2)"
    and "files st filename = Some old"
    and "stdin st2 = ans # rest"
  shows "\<exists>st'. handle_cmd E fuel cmd no_confirm st = Some (Inr [], st') \<and>
           Input ''File already exists, overwrite? [y/N] '' \<in> set (events st') \<and>
           (lower ans = ''y'' \<longleftrightarrow> ans = ''y'' \<or> ans = ''Y'') \<and>
           files st' =
             (if ans = ''y'' \<or> ans = ''Y'' then (files st)(filename \<mapsto> code) else files st) \<and>
           (ans \<noteq> ''y'' \<and> ans \<noteq> ''Y'' \<longrightarrow>
              events st' = events st2 @ [Input ''File already exists, overwrite? [y/N] ''])"
proof -
  let ?st1 = "log_undo 1 True st"
  let ?q = "''File already exists, overwrite? [y/N] ''"
  let ?st3 = "st2\<lparr>events := events st2 @ [Input ?q], stdin := rest\<rparr>"
  from arg0_or_input_frame[OF assms(4)] have f2: "files st2 = files st"
    by (simp add: log_undo_def)
  with assms(5) have ex: "files st2 filename \<noteq> None" by simp
  from assms(6) have i: "input ?q st2 = (Inr ans, ?st3)"
    by (simp add: input_def Let_def)
  from assms(1) have h: "handle_cmd E fuel cmd no_confirm st = Some (case_save E args st)"
    by (simp add: handle_cmd_def)
  show ?thesis
  proof (cases "ans = ''y'' \<or> ans = ''Y''")
    case True
    then have ly: "lower ans = ''y''" by (simp add: lower_y)
    let ?st' = "print (''Saved code block to '' @ filename)
                  (?st3\<lparr>files := (files ?st3)(filename \<mapsto> code)\<rparr>)"
    from assms(2,3,4) ex i ly have "case_save E args st = (Inr [], ?st')"
      by (simp add: case_save_def Let_def)
    moreover have "Input ?q \<in> set (events ?st')" "files ?st' = (files st)(filename \<mapsto> code)"
      using f2 by (simp_all add: print_def)
    ultimately show ?thesis using h True ly by auto
  next
    case False
    then have ly: "lower ans \<noteq> ''y''" by (simp add: lower_y)
    from assms(2,3,4) ex i ly have "case_save E args st = (Inr [], ?st3)"
      by (simp add: case_save_def Let_def)
    moreover have "Input ?q \<in> set (events ?st3)" "files ?st3 = files st"
      "events ?st3 = events st2 @ [Input ?q]"
      using f2 by simp_all
    ultimately show ?thesis using h False ly by auto
  qed
qed

theorem save_overwrite_only_on_y_witness:
  "(\<exists>st'. handle_cmd (demo_env 1 (\<lambda>k. False)) 0 ''/save out.py'' True
       (demo_state [Message Assistant ''x'', Message User ''/save out.py''] [''yes'']) =
         Some (Inr [], st') \<and> files st' = [''out.py'' \<mapsto> ''old'']) \<and>
   (\<exists>st'. handle_cmd (demo_env 1 (\<lambda>k. False)) 0 ''/save out.py'' True
       (demo_state [Message Assistant ''x'', Message User ''/save out.py''] [''Y'']) =
         Some (Inr [], st') \<and> files st' = [''out.py'' \<mapsto> ''code''])"
proof -
  let ?E = "demo_env 1 (\<lambda>k. False)"
  let ?l = "[Message Assistant ''x'', Message User ''/save out.py'']"
  have p: "parse_cmd ''/save out.py'' = (''save'', [''out.py''])"
    by (simp add: parse_cmd_def lstrip_def CMDFIX_def)
  have g: "get_last_code_block ?E (log (log_undo 1 True (demo_state ?l lines))) = Some ''code''"
    for lines by (simp add: demo_env_def)
  have c: "''code'' \<noteq> []" by simp
  have a: "arg0_or_input [''out.py''] ''Filename: '' (log_undo 1 True (demo_state ?l lines)) =
      (Inr ''out.py'', log_undo 1 True (demo_state ?l lines))" for lines
    by (simp add: arg0_or_input_def)
  have f: "files (demo_state ?l lines) ''out.py'' = Some ''old''" for lines
    by (simp add: demo_state_def)
  have s: "stdin (log_undo 1 True (demo_state ?l [x])) = x # []" for x
    by (simp add: demo_state_def log_undo_def)
  from save_overwrite_only_on_y[OF p g[of "[''yes'']"] c a[of "[''yes'']"] f[of "[''yes'']"]
      s[of "''yes''"], where fuel = 0 and no_confirm = True]
    save_overwrite_only_on_y[OF p g[of "[''Y'']"] c a[of "[''Y'']"] f[of "[''Y'']"]
      s[of "''Y''"], where fuel = 0 and no_confirm = True]
  show ?thesis by (auto simp: demo_state_def)
qed

section \<open>Which commands retract their directive\<close>

text \<open>
  What each case leaves of the transcript. The cases continue, log, rename, save, replay,
  undo, edit and the default case start with the silent undo of one message; the cases
  for shell, python, context, load, exit and impersonate never call \<^verbatim>\<open>undo\<close>.
\<close>

lemma case_continue_retracts:
  "case_continue st = (r, st') \<Longrightarrow>
     log st' = log (log_undo 1 True st) \<and> (\<exists>es. events st' = events st @ LogUndo 1 True # es)"
  by (auto simp: case_continue_def op_defs)

lemma case_log_retracts:
  "case_log args st = (r, st') \<Longrightarrow>
     log st' = log (log_undo 1 True st) \<and> (\<exists>es. events st' = events st @ LogUndo 1 True # es)"
  by (auto simp: case_log_def op_defs)

lemma case_rename_retracts:
  "case_rename args st = (r, st') \<Longrightarrow>
     log st' = log (log_undo 1 True st) \<and> (\<exists>es. events st' = events st @ LogUndo 1 True # es)"
  by (auto simp: case_rename_def arg0_or_input_def input_def op_defs Let_def
      split: list.splits prod.splits sum.splits)

lemma case_save_retracts:
  "case_save E args st = (r, st') \<Longrightarrow>
     log st' = log (log_undo 1 True st) \<and> (\<exists>es. events st' = events st @ LogUndo 1 True # es)"
  by (auto simp: case_save_def arg0_or_input_def input_def op_defs Let_def
      split: list.splits prod.splits sum.splits option.splits if_splits)

lemma case_replay_retracts:
  "case_replay E st = (r, st') \<Longrightarrow>
     log st' = log (log_undo 1 True st) \<and> (\<exists>es. events st' = events st @ LogUndo 1 True # es)"
  by (auto simp: case_replay_def replay_msgs_eq op_defs Let_def)

lemma prefix_take_le: "a \<le> b \<Longrightarrow> prefix (take a xs) (take b xs)"
proof -
  assume "a \<le> b"
  then have "take a xs = take a (take b xs)" by (simp add: min_def)
  then show ?thesis by (metis take_is_prefix)
qed

lemma case_undo_retracts:
  "case_undo args st = (r, st') \<Longrightarrow>
     prefix (log st') (log (log_undo 1 True st)) \<and>
     (\<exists>es. events st' = events st @ LogUndo 1 True # es)"
  by (auto simp: case_undo_def op_defs Let_def prefix_take_le split: option.splits if_splits)

lemma case_default_retracts:
  "case_default st = (r, st') \<Longrightarrow> log st \<noteq> [] \<Longrightarrow>
     log st' = log (log_undo 1 True st) \<and>
     (\<exists>es. events st' = events st @ es \<and> LogUndo 1 True \<in> set es)"
  by (auto simp: case_default_def fold_print_descriptions op_defs Let_def split: if_splits)

lemma case_edit_retracts:
  assumes "case_edit E fuel st = Some (r, st')"
  shows "(log st' = log (log_undo 1 True st) \<or>
          (\<exists>j t0 res. toml_to_msgs E (edit_text_with_editor E j t0) = Inr res \<and> res \<noteq> [] \<and>
             log st' = rev res)) \<and>
         (\<exists>es. events st' = events st @ LogUndo 1 True # es)"
proof -
  let ?st1 = "log_undo 1 True st"
  from assms have "edit_loop E fuel 0 (msgs_to_toml E (rev (log ?st1))) ?st1 = Some (r, st')"
    by (simp add: case_edit_def Let_def)
  from edit_loop_result[OF this] show ?thesis
    by (elim disjE exE conjE) (auto simp: log_undo_def)
qed

lemma no_undo_direct:
  "case_shell E args nc st = (r, st') \<Longrightarrow>
     log st' = log st \<and> (\<exists>es. events st' = events st @ es \<and> (\<forall>n q. LogUndo n q \<notin> set es))"
  "case_python E args nc st = (r, st') \<Longrightarrow>
     log st' = log st \<and> (\<exists>es. events st' = events st @ es \<and> (\<forall>n q. LogUndo n q \<notin> set es))"
  "case_context E st = (r, st') \<Longrightarrow>
     log st' = log st \<and> (\<exists>es. events st' = events st @ es \<and> (\<forall>n q. LogUndo n q \<notin> set es))"
  "case_exit st = (r, st') \<Longrightarrow>
     log st' = log st \<and> (\<exists>es. events st' = events st @ es \<and> (\<forall>n q. LogUndo n q \<notin> set es))"
  by (auto simp: case_shell_def case_python_def case_context_def case_exit_def)

lemma input_no_undo:
  "input p st = (r, st') \<Longrightarrow>
     log st' = log st \<and> (\<exists>es. events st' = events st @ es \<and> (\<forall>n q. LogUndo n q \<notin> set es))"
  by (cases "stdin st") (auto simp: input_def Let_def)

lemma case_load_no_undo:
  assumes "case_load args st = (r, st')"
  shows "log st' = log st \<and> (\<exists>es. events st' = events st @ es \<and> (\<forall>n q. LogUndo n q \<notin> set es))"
proof (cases args)
  case Nil
  obtain r1 st1 where i: "input ''Filename: '' st = (r1, st1)"
    by (cases "input ''Filename: '' st")
  with Nil assms have "st' = st1"
    by (auto simp: case_load_def arg0_or_input_def split: sum.splits option.splits)
  with input_no_undo[OF i] show ?thesis by simp
next
  case (Cons a as)
  with assms have "st' = st"
    by (auto simp: case_load_def arg0_or_input_def split: sum.splits option.splits)
  then show ?thesis by simp
qed

lemma case_impersonate_no_undo:
  assumes "case_impersonate E args nc st = (r, st')"
  shows "log st' = log st \<and> (\<exists>es. events st' = events st @ es \<and> (\<forall>n q. LogUndo n q \<notin> set es))"
proof (cases "args = []")
  case True
  obtain r1 st1 where i: "input ''[impersonate] Assistant: '' st = (r1, st1)"
    by (cases "input ''[impersonate] Assistant: '' st")
  with True assms have "st' = st1"
    by (auto simp: case_impersonate_def Let_def split: sum.splits)
  with input_no_undo[OF i] show ?thesis by simp
next
  case False
  with assms have "st' = st" by (auto simp: case_impersonate_def Let_def)
  then show ?thesis by simp
qed

text \<open>
  Claim C1, as amended. Let the directive \<open>d\<close> be the last entry of the transcript,
  \<open>L\<close> the entries before it, and let the handler end (by returning or by raising).
  For continue, log, rename, save and replay the transcript is then \<open>L\<close>, and the first
  thing the handler did was the silent undo of one message. For undo the same undo came
  first and the transcript is a prefix of \<open>L\<close>. For edit the same undo came first and the
  transcript is \<open>L\<close> or the reversed list of messages of a document that parsed. For a
  name that no case matches (help is one) the transcript is \<open>L\<close> and the silent undo
  is among the things done. For shell, bash, sh, python, py, context, load, exit and
  impersonate the handler makes no undo at all and the transcript is still \<open>L\<close> followed
  by the directive.
\<close>

theorem self_retraction_by_command:
  assumes "parse_cmd cmd = (name, args)" and "log st = L @ [d]"
    and "handle_cmd E fuel cmd no_confirm st = Some (r, st')"
  shows "(name \<in> {''continue'', ''log'', ''rename'', ''save'', ''replay''} \<longrightarrow>
            log st' = L \<and> (\<exists>es. events st' = events st @ LogUndo 1 True # es)) \<and>
         (name = ''undo'' \<longrightarrow>
            prefix (log st') L \<and> (\<exists>es. events st' = events st @ LogUndo 1 True # es)) \<and>
         (name = ''edit'' \<longrightarrow>
            (log st' = L \<or>
             (\<exists>j t0 res. toml_to_msgs E (edit_text_with_editor E j t0) = Inr res \<and> res \<noteq> [] \<and>
                log st' = rev res)) \<and>
            (\<exists>es. events st' = events st @ LogUndo 1 True # es)) \<and>
         (name \<notin> {''bash'', ''sh'', ''shell'', ''python'', ''py'', ''continue'', ''log'',
             ''rename'', ''fork'', ''summarize'', ''edit'', ''context'', ''undo'', ''load'',
             ''save'', ''exit'', ''replay'', ''impersonate''} \<longrightarrow>
            log st' = L \<and> (\<exists>es. events st' = events st @ es \<and> LogUndo 1 True \<in> set es)) \<and>
         (name \<in> {''bash'', ''sh'', ''shell'', ''python'', ''py'', ''context'', ''load'', ''exit'',
             ''impersonate''} \<longrightarrow>
            log st' = L @ [d] \<and>
            (\<exists>es. events st' = events st @ es \<and> (\<forall>n q. LogUndo n q \<notin> set es)))"
proof -
  have u: "log (log_undo 1 True st) = L" using assms(2) by (simp add: log_undo_def)
  have ne: "log st \<noteq> []" using assms(2) by simp
  note h = assms(3)[unfolded handle_cmd_def assms(1)]
  have 1: "name \<in> {''continue'', ''log'', ''rename'', ''save'', ''replay''} \<longrightarrow>
            log st' = L \<and> (\<exists>es. events st' = events st @ LogUndo 1 True # es)"
  proof
    assume "name \<in> {''continue'', ''log'', ''rename'', ''save'', ''replay''}"
    then consider "name = ''continue''" | "name = ''log''" | "name = ''rename''"
      | "name = ''save''" | "name = ''replay''" by (elim insertE emptyE)
    then show "log st' = L \<and> (\<exists>es. events st' = events st @ LogUndo 1 True # es)"
    proof cases
      case 1
      with h have "case_continue st = (r, st')" by simp
      from case_continue_retracts[OF this] u show ?thesis by simp
    next
      case 2
      with h have "case_log args st = (r, st')" by simp
      from case_log_retracts[OF this] u show ?thesis by simp
    next
      case 3
      with h have "case_rename args st = (r, st')" by simp
      from case_rename_retracts[OF this] u show ?thesis by simp
    next
      case 4
      with h have "case_save E args st = (r, st')" by simp
      from case_save_retracts[OF this] u show ?thesis by simp
    next
      case 5
      with h have "case_replay E st = (r, st')" by simp
      from case_replay_retracts[OF this] u show ?thesis by simp
    qed
  qed
  have 2: "name = ''undo'' \<longrightarrow>
            prefix (log st') L \<and> (\<exists>es. events st' = events st @ LogUndo 1 True # es)"
  proof
    assume "name = ''undo''"
    with h have "case_undo args st = (r, st')" by simp
    from case_undo_retracts[OF this] u
    show "prefix (log st') L \<and> (\<exists>es. events st' = events st @ LogUndo 1 True # es)" by simp
  qed
  have 3: "name = ''edit'' \<longrightarrow>
            (log st' = L \<or>
             (\<exists>j t0 res. toml_to_msgs E (edit_text_with_editor E j t0) = Inr res \<and> res \<noteq> [] \<and>
                log st' = rev res)) \<and>
            (\<exists>es. events st' = events st @ LogUndo 1 True # es)"
  proof
    assume "name = ''edit''"
    with h have "case_edit E fuel st = Some (r, st')" by simp
    from case_edit_retracts[OF this] u
    show "(log st' = L \<or>
             (\<exists>j t0 res. toml_to_msgs E (edit_text_with_editor E j t0) = Inr res \<and> res \<noteq> [] \<and>
                log st' = rev res)) \<and>
            (\<exists>es. events st' = events st @ LogUndo 1 True # es)" by simp
  qed
  have 4: "name \<notin> {''bash'', ''sh'', ''shell'', ''python'', ''py'', ''continue'', ''log'',
             ''rename'', ''fork'', ''summarize'', ''edit'', ''context'', ''undo'', ''load'',
             ''save'', ''exit'', ''replay'', ''impersonate''} \<longrightarrow>
            log st' = L \<and> (\<exists>es. events st' = events st @ es \<and> LogUndo 1 True \<in> set es)"
  proof
    assume "name \<notin> {''bash'', ''sh'', ''shell'', ''python'', ''py'', ''continue'', ''log'',
             ''rename'', ''fork'', ''summarize'', ''edit'', ''context'', ''undo'', ''load'',
             ''save'', ''exit'', ''replay'', ''impersonate''}"
    with h have "case_default st = (r, st')" by simp
    from case_default_retracts[OF this ne] u
    show "log st' = L \<and> (\<exists>es. events st' = events st @ es \<and> LogUndo 1 True \<in> set es)"
      by simp
  qed
  have 5: "name \<in> {''bash'', ''sh'', ''shell'', ''python'', ''py'', ''context'', ''load'', ''exit'',
             ''impersonate''} \<longrightarrow>
            log st' = L @ [d] \<and>
            (\<exists>es. events st' = events st @ es \<and> (\<forall>n q. LogUndo n q \<notin> set es))"
  proof
    assume "name \<in> {''bash'', ''sh'', ''shell'', ''python'', ''py'', ''context'', ''load'', ''exit'',
             ''impersonate''}"
    then consider "name = ''bash''" | "name = ''sh''" | "name = ''shell''"
      | "name = ''python''" | "name = ''py''"
      | "name = ''context''" | "name = ''load''" | "name = ''exit''" | "name = ''impersonate''"
      by (elim insertE emptyE)
    then show "log st' = L @ [d] \<and>
            (\<exists>es. events st' = events st @ es \<and> (\<forall>n q. LogUndo n q \<notin> set es))"
    proof cases
      case 1
      with h have "case_shell E args no_confirm st = (r, st')" by simp
      from no_undo_direct(1)[OF this] assms(2) show ?thesis by simp
    next
      case 2
      with h have "case_shell E args no_confirm st = (r, st')" by simp
      from no_undo_direct(1)[OF this] assms(2) show ?thesis by simp
    next
      case 3
      with h have "case_shell E args no_confirm st = (r, st')" by simp
      from no_undo_direct(1)[OF this] assms(2) show ?thesis by simp
    next
      case 4
      with h have "case_python E args no_confirm st = (r, st')" by simp
      from no_undo_direct(2)[OF this] assms(2) show ?thesis by simp
    next
      case 5
      with h have "case_python E args no_confirm st = (r, st')" by simp
      from no_undo_direct(2)[OF this] assms(2) show ?thesis by simp
    next
      case 6
      with h have "case_context E st = (r, st')" by simp
      from no_undo_direct(3)[OF this] assms(2) show ?thesis by simp
    next
      case 7
      with h have "case_load args st = (r, st')" by simp
      from case_load_no_undo[OF this] assms(2) show ?thesis by simp
    next
      case 8
      with h have "case_exit st = (r, st')" by simp
      from no_undo_direct(4)[OF this] assms(2) show ?thesis by simp
    next
      case 9
      with h have "case_impersonate E args no_confirm st = (r, st')" by simp
      from case_impersonate_no_undo[OF this] assms(2) show ?thesis by simp
    qed
  qed
  from 1 2 3 4 5 show ?thesis by blast
qed

theorem self_retraction_by_command_witness:
  "handle_cmd (demo_env 1 (\<lambda>k. False)) 0 ''/log --hidden'' True
      (demo_state [Message User ''hi'', Message User ''/log --hidden''] []) =
     Some (Inr [],
       \<lparr>log = [Message User ''hi''], stored = [], files = [''out.py'' \<mapsto> ''old''], stdin = [],
        events = [LogUndo 1 True, LogPrint True]\<rparr>)"
proof -
  have p: "parse_cmd ''/log --hidden'' = (''log'', [''--hidden''])"
    by (simp add: parse_cmd_def lstrip_def CMDFIX_def)
  have l: "log (demo_state [Message User ''hi'', Message User ''/log --hidden''] []) =
      [Message User ''hi''] @ [Message User ''/log --hidden'']"
    by (simp add: demo_state_def)
  have r: "handle_cmd (demo_env 1 (\<lambda>k. False)) 0 ''/log --hidden'' True
      (demo_state [Message User ''hi'', Message User ''/log --hidden''] []) =
     Some (Inr [],
       \<lparr>log = [Message User ''hi''], stored = [], files = [''out.py'' \<mapsto> ''old''], stdin = [],
        events = [LogUndo 1 True, LogPrint True]\<rparr>)"
    by (simp add: run_defs)
  from self_retraction_by_command[OF p l r] show ?thesis using r by simp
qed

text \<open>
  The claim as it was stated fails for the shell command: the handler yields the output
  of the command and leaves the transcript alone, so the directive is still in it, and
  \<^verbatim>\<open>execute_cmd\<close> appends the output after it.
\<close>

theorem self_retraction_counterexample:
  "log (demo_state [Message User ''hi'', Message User ''/shell ls''] []) =
     [Message User ''hi'', Message User ''/shell ls''] \<and>
   handle_cmd (demo_env 1 (\<lambda>k. False)) 0 ''/shell ls'' True
      (demo_state [Message User ''hi'', Message User ''/shell ls''] []) =
     Some (Inr [Message System ''ls''],
       demo_state [Message User ''hi'', Message User ''/shell ls''] []) \<and>
   execute_cmd (demo_env 1 (\<lambda>k. False)) 0 (Message User ''/shell ls'')
      (demo_state [Message User ''hi'', Message User ''/shell ls''] []) =
     Some (Inr True,
       demo_state [Message User ''hi'', Message User ''/shell ls'', Message System ''ls''] [])"
  by (simp add: execute_cmd_def run_defs)

end
